theory Spec2Isabelle
  imports Main
begin

section \<open>Strings\<close>

text \<open>
  JavaScript strings are modelled as \<^typ>\<open>string\<close>: a list of code units, each in
  the range 0..255. Code units above 255 are outside the model.

  \<^verbatim>\<open>String.prototype.trim\<close> removes the WhiteSpace and LineTerminator code points
  from both ends; within the modelled range these are TAB, LF, VT, FF, CR, SPACE and
  NO-BREAK SPACE (U+00A0).
\<close>

definition is_space :: "char \<Rightarrow> bool" where
  "is_space c = (let n = (of_char c :: nat) in (9 \<le> n \<and> n \<le> 13) \<or> n = 32 \<or> n = 160)"

definition trim :: "string \<Rightarrow> string" where
  "trim s = rev (dropWhile is_space (rev (dropWhile is_space s)))"

text \<open>\<^verbatim>\<open>s.startsWith(w)\<close>: the literal \<open>w\<close> stands at the start of \<open>s\<close>.\<close>

fun starts_with :: "string \<Rightarrow> string \<Rightarrow> bool" where
  "starts_with [] s = True"
| "starts_with (c # w) [] = False"
| "starts_with (c # w) (d # s) = (c = d \<and> starts_with w s)"

text \<open>\<^verbatim>\<open>s.includes(w)\<close>: the literal \<open>w\<close> stands somewhere in \<open>s\<close>.\<close>

fun str_includes :: "string \<Rightarrow> string \<Rightarrow> bool" where
  "str_includes [] w = starts_with w []"
| "str_includes (c # s) w = (starts_with w (c # s) \<or> str_includes s w)"

section \<open>Regular expressions\<close>

text \<open>
  The regular expressions of \<^verbatim>\<open>VideoAPI\<close> are built from literals, character
  classes, the optional \<^verbatim>\<open>?\<close>, the greedy \<^verbatim>\<open>+\<close> on a class, concatenation and one
  capturing group. The matcher below is the backtracking matcher of ECMAScript on this
  fragment: \<open>rx r s\<close> lists every way \<open>r\<close> can match at the start of \<open>s\<close>, in the order
  in which backtracking tries them, each as the capture of the group (if it took part)
  and the rest of the input.
\<close>

datatype regex =
    Lit string
  | Cls "char \<Rightarrow> bool"
  | Opt regex
  | Plus "char \<Rightarrow> bool"
  | Cat regex regex
  | Grp regex

text \<open>Greedy \<^verbatim>\<open>[...]+\<close>: one or more characters of the class, the longest run first.\<close>

fun plus_ends :: "(char \<Rightarrow> bool) \<Rightarrow> string \<Rightarrow> string list" where
  "plus_ends p [] = []"
| "plus_ends p (c # s) = (if p c then plus_ends p s @ [s] else [])"

fun rx :: "regex \<Rightarrow> string \<Rightarrow> (string option \<times> string) list" where
  "rx (Lit w) s = (if starts_with w s then [(None, drop (length w) s)] else [])"
| "rx (Cls p) s = (case s of [] \<Rightarrow> [] | c # t \<Rightarrow> if p c then [(None, t)] else [])"
| "rx (Opt r) s = rx r s @ [(None, s)]"
| "rx (Plus p) s = map (\<lambda>t. (None, t)) (plus_ends p s)"
| "rx (Cat a b) s =
     concat (map (\<lambda>(g, t). map (\<lambda>(g', t'). (case g' of None \<Rightarrow> g | Some x \<Rightarrow> Some x, t')) (rx b t))
                 (rx a s))"
| "rx (Grp r) s = map (\<lambda>(g, t). (Some (take (length s - length t) s), t)) (rx r s)"

text \<open>\<^verbatim>\<open>/^r/.test(s)\<close>: a pattern anchored at the start matches when \<open>r\<close> matches there.\<close>

definition test_anchored :: "regex \<Rightarrow> string \<Rightarrow> bool" where
  "test_anchored r s = (rx r s \<noteq> [])"

text \<open>
  \<^verbatim>\<open>s.match(/r/)\<close> for a pattern with no anchor and no \<^verbatim>\<open>g\<close> flag: the leftmost
  position at which \<open>r\<close> matches, and there the first match in backtracking order.
  The result is \<open>None\<close> for \<^verbatim>\<open>null\<close>, and otherwise the capture \<^verbatim>\<open>m[1]\<close>.
\<close>

fun match_group :: "regex \<Rightarrow> string \<Rightarrow> string option option" where
  "match_group r [] = (case rx r [] of [] \<Rightarrow> None | (g, t) # _ \<Rightarrow> Some g)"
| "match_group r (c # s) =
     (case rx r (c # s) of [] \<Rightarrow> match_group r s | (g, t) # _ \<Rightarrow> Some g)"

text \<open>The classes \<^verbatim>\<open>\w\<close> (no \<^verbatim>\<open>i\<close> or \<^verbatim>\<open>u\<close> flag: \<^verbatim>\<open>[A-Za-z0-9_]\<close>) and \<^verbatim>\<open>[\w-]\<close>.\<close>

definition word_char :: "char \<Rightarrow> bool" where
  "word_char c = (let n = (of_char c :: nat) in
     (48 \<le> n \<and> n \<le> 57) \<or> (65 \<le> n \<and> n \<le> 90) \<or> n = 95 \<or> (97 \<le> n \<and> n \<le> 122))"

definition word_or_dash :: "char \<Rightarrow> bool" where
  "word_or_dash c = (word_char c \<or> c = CHR ''-'')"

section \<open>VideoAPI: URL helpers\<close>

text \<open>
  \<^verbatim>\<open>/^https?:\/\/(www\.)?youtube\.com\/watch\?v=[\w-]+/\<close>,
  \<^verbatim>\<open>/^https?:\/\/youtu\.be\/[\w-]+/\<close>,
  \<^verbatim>\<open>/^https?:\/\/(www\.)?youtube\.com\/embed\/[\w-]+/\<close>,
  \<^verbatim>\<open>/^https?:\/\/(www\.)?youtube\.com\/v\/[\w-]+/\<close>.
\<close>

definition scheme :: regex where
  "scheme = Cat (Lit ''http'') (Cat (Opt (Lit ''s'')) (Lit ''://''))"

definition www_youtube :: "string \<Rightarrow> regex" where
  "www_youtube path =
     Cat scheme (Cat (Opt (Grp (Lit ''www.''))) (Cat (Lit (''youtube.com'' @ path)) (Plus word_or_dash)))"

definition patterns :: "regex list" where
  "patterns =
     [www_youtube ''/watch?v='',
      Cat scheme (Cat (Lit ''youtu.be/'') (Plus word_or_dash)),
      www_youtube ''/embed/'',
      www_youtube ''/v/'']"

text \<open>
  \<^verbatim>\<open>validateYouTubeURL(url)\<close>. The argument is a string; the empty string is falsy and
  is refused by the first guard.
\<close>

definition validateYouTubeURL :: "string \<Rightarrow> bool" where
  "validateYouTubeURL url =
     (if url = [] then False
      else let trimmedUrl = trim url in list_ex (\<lambda>pattern. test_anchored pattern trimmedUrl) patterns)"

text \<open>
  \<^verbatim>\<open>extractVideoID(url)\<close>, with its four extraction patterns
  \<^verbatim>\<open>/[?&]v=([^&]+)/\<close>, \<^verbatim>\<open>/youtu\.be\/([^?]+)/\<close>, \<^verbatim>\<open>/embed\/([^?]+)/\<close> and
  \<^verbatim>\<open>/\/v\/([^?]+)/\<close>, tried in this order.
\<close>

definition watch_rx :: regex where
  "watch_rx = Cat (Cls (\<lambda>c. c = CHR ''?'' \<or> c = CHR ''&''))
                  (Cat (Lit ''v='') (Grp (Plus (\<lambda>c. c \<noteq> CHR ''&''))))"

definition short_rx :: regex where
  "short_rx = Cat (Lit ''youtu.be/'') (Grp (Plus (\<lambda>c. c \<noteq> CHR ''?'')))"

definition embed_rx :: regex where
  "embed_rx = Cat (Lit ''embed/'') (Grp (Plus (\<lambda>c. c \<noteq> CHR ''?'')))"

definition v_rx :: regex where
  "v_rx = Cat (Lit ''/v/'') (Grp (Plus (\<lambda>c. c \<noteq> CHR ''?'')))"

text \<open>
  \<^verbatim>\<open>m[1]\<close> of a successful match; the group of each extraction pattern always takes
  part in a match, the \<^verbatim>\<open>undefined\<close> of a group that did not is \<open>None\<close>.
\<close>

definition extractVideoID :: "string \<Rightarrow> string option" where
  "extractVideoID url =
     (if \<not> validateYouTubeURL url then None
      else let trimmedUrl = trim url in
        case match_group watch_rx trimmedUrl of Some watchMatch \<Rightarrow> watchMatch
        | None \<Rightarrow>
        (case match_group short_rx trimmedUrl of Some shortMatch \<Rightarrow> shortMatch
        | None \<Rightarrow>
        (case match_group embed_rx trimmedUrl of Some embedMatch \<Rightarrow> embedMatch
        | None \<Rightarrow>
        (case match_group v_rx trimmedUrl of Some vMatch \<Rightarrow> vMatch
        | None \<Rightarrow> None))))"


section \<open>VideoAPI: number formatting\<close>

text \<open>
  \<^verbatim>\<open>formatNumber(num)\<close> receives a view or like count: a JavaScript number whose value
  is a non-negative integer below \<open>2^53\<close>, modelled as a \<^typ>\<open>nat\<close>. The divisions
  \<^verbatim>\<open>num / 1000\<close>, \<^verbatim>\<open>num / 1000000\<close> and \<^verbatim>\<open>num / 1000000000\<close> are IEEE-754 binary64
  divisions, and \<^verbatim>\<open>toFixed(1)\<close> works on the rounded quotient, so both are modelled
  exactly, with integer arithmetic.
\<close>

definition digit_char :: "nat \<Rightarrow> char" where
  "digit_char d = ''0123456789'' ! d"

text \<open>\<^verbatim>\<open>Number.prototype.toString\<close> on a non-negative integer below \<open>10^21\<close>: its decimal digits.\<close>

fun show_nat :: "nat \<Rightarrow> string" where
  "show_nat n = (if n < 10 then [digit_char n] else show_nat (n div 10) @ [digit_char (n mod 10)])"

declare show_nat.simps [simp del]

text \<open>The number of binary digits of \<open>n\<close>.\<close>

fun bit_length :: "nat \<Rightarrow> nat" where
  "bit_length n = (if n = 0 then 0 else Suc (bit_length (n div 2)))"

declare bit_length.simps [simp del]

text \<open>The integer nearest to \<open>n / d\<close>, a tie going to the even neighbour.\<close>

definition round_half_even :: "nat \<Rightarrow> nat \<Rightarrow> nat" where
  "round_half_even n d =
     (let q = n div d; r = n mod d in
      if 2 * r < d then q else if d < 2 * r then q + 1 else if even q then q else q + 1)"

text \<open>
  The binary64 quotient \<^verbatim>\<open>a / b\<close> of two exactly representable positive integers with
  \<open>b \<le> a\<close>, returned as a fraction \<open>(p, q)\<close> of value \<open>p / q\<close>. With
  \<open>2^k \<le> a / b < 2^(k+1)\<close> the representable numbers around the quotient are the
  multiples of \<open>2^(k-52)\<close>, and the division rounds to the nearest of them, ties to even.
\<close>

definition js_div :: "nat \<Rightarrow> nat \<Rightarrow> nat \<times> nat" where
  "js_div a b =
     (let k = bit_length (a div b) - 1 in
      if k \<le> 52 then (round_half_even (a * 2 ^ (52 - k)) b, 2 ^ (52 - k))
      else (round_half_even a (b * 2 ^ (k - 52)) * 2 ^ (k - 52), 1))"

text \<open>
  \<^verbatim>\<open>x.toFixed(1)\<close> for \<open>0 \<le> x < 10^21\<close>, following ECMA-262: \<open>n\<close> is the integer for
  which \<open>n / 10 - x\<close> is closest to zero, the larger one if there are two; its digits
  are padded with zeros to two characters and the point is put before the last one.
\<close>

definition toFixed1 :: "nat \<times> nat \<Rightarrow> string" where
  "toFixed1 x =
     (let n = (20 * fst x + snd x) div (2 * snd x);
          m = show_nat n;
          m = (if length m \<le> 1 then replicate (2 - length m) CHR ''0'' @ m else m);
          k = length m
      in take (k - 1) m @ ''.'' @ drop (k - 1) m)"

definition formatNumber :: "nat \<Rightarrow> string" where
  "formatNumber num =
     (if num \<ge> 1000000000 then toFixed1 (js_div num 1000000000) @ ''B''
      else if num \<ge> 1000000 then toFixed1 (js_div num 1000000) @ ''M''
      else if num \<ge> 1000 then toFixed1 (js_div num 1000) @ ''K''
      else show_nat num)"

text \<open>
  A field of a JSON body as the code reads it: the field is \<^verbatim>\<open>null\<close>, it is absent
  and reads as \<^verbatim>\<open>undefined\<close>, or it has a value. A property read or a method call on
  \<^verbatim>\<open>null\<close> or \<^verbatim>\<open>undefined\<close> throws a \<^verbatim>\<open>TypeError\<close>; its message is given in
  the wording of V8, and no property below depends on the wording.
\<close>

datatype 'a json_field = Null | Absent | Given 'a

definition cannot_read :: "'a json_field \<Rightarrow> string \<Rightarrow> string" where
  "cannot_read v property =
     ''Cannot read properties of '' @ (case v of Null \<Rightarrow> ''null'' | _ \<Rightarrow> ''undefined'') @
     '' (reading '' @ [CHR 0x27] @ property @ [CHR 0x27] @ '')''"

text \<open>
  \<^verbatim>\<open>formatNumber(num)\<close> on a count as the response carries it. For \<^verbatim>\<open>null\<close> and
  \<^verbatim>\<open>undefined\<close> each of the three comparisons is false and \<^verbatim>\<open>num.toString()\<close>
  throws; the result is the formatted string (\<open>Inr\<close>) or the message of the error
  (\<open>Inl\<close>).
\<close>

definition formatNumber_field :: "nat json_field \<Rightarrow> string + string" where
  "formatNumber_field num =
     (case num of
        Given n \<Rightarrow> Inr (formatNumber n)
      | _ \<Rightarrow> Inl (cannot_read num ''toString''))"

section \<open>VideoAPI: error messages\<close>

text \<open>
  \<^verbatim>\<open>handleError(error)\<close>. An error is modelled by its \<^verbatim>\<open>message\<close>; the empty message
  is falsy and is replaced by the default.
\<close>

definition handleError :: "string \<Rightarrow> string" where
  "handleError error_message =
     (let message = (if error_message = [] then ''An unknown error occurred'' else error_message) in
      if str_includes message ''timeout'' then
        ''Request timed out. Please check your connection and try again.''
      else if str_includes message ''fetch'' then
        ''Unable to connect to the server. Please check your internet connection.''
      else if str_includes message ''Invalid YouTube URL'' then
        ''Please enter a valid YouTube video URL.''
      else if str_includes message ''Video unavailable'' then
        ''This video is not available for download. It may be private, deleted, or restricted.''
      else if str_includes message ''Age restricted'' then
        ''This video is age-restricted and cannot be downloaded.''
      else if str_includes message ''Copyright'' then
        ''This video is protected by copyright and cannot be downloaded.''
      else if str_includes message ''HTTP 429'' then
        ''Too many requests. Please wait a moment before trying again.''
      else if str_includes message ''HTTP 500'' then
        ''Server error. Please try again later.''
      else if str_includes message ''HTTP 400'' then
        ''Invalid request. Please check the video URL and try again.''
      else ''Error: '' @ message)"

section \<open>VideoAPI: requests\<close>

text \<open>
  The JSON bodies of the backend; a body is an object. The counts and the format list
  of a preview, which \<^verbatim>\<open>displayVideoPreview\<close> dereferences, may be \<^verbatim>\<open>null\<close> or
  absent; its other fields are only printed and are taken to be strings, and the formats
  to be objects. A field of a download response that is absent is \<open>None\<close>.
\<close>

record format =
  quality :: string
  format_id :: string
  filesize_formatted :: string

record video_info =
  title :: string
  uploader :: string
  duration_formatted :: string
  view_count :: "nat json_field"
  like_count :: "nat json_field"
  thumbnail :: string
  formats :: "format list json_field"

record download_response =
  success :: bool
  filename :: "string option"
  message :: "string option"

text \<open>
  A request as \<^verbatim>\<open>makeRequest\<close> hands it to \<^verbatim>\<open>fetch\<close>: the endpoint, the method and
  the data that \<^verbatim>\<open>JSON.stringify\<close> serialises into the body.
\<close>

datatype payload =
    NoBody
  | PreviewData string
  | DownloadData string "string option" "string option"

record request =
  endpoint :: string
  http_method :: string
  body :: payload

text \<open>
  What the network does with one \<^verbatim>\<open>fetch\<close>: the timer aborts it after 30 seconds;
  \<^verbatim>\<open>fetch\<close> or the reading of the body rejects with an error of some message that is
  no abort; the response is not \<^verbatim>\<open>ok\<close>, with its status, status text and the
  \<^verbatim>\<open>detail\<close> of its JSON body, if it has one; or the response is \<^verbatim>\<open>ok\<close> (status 2xx)
  with its parsed body, taken to have the fields and types of the records above.
\<close>

datatype 'a fetch_outcome =
    Aborted
  | Rejected string
  | HttpError nat string "string option"
  | HttpOk 'a

text \<open>
  \<^verbatim>\<open>makeRequest(endpoint, options)\<close>. Its \<^verbatim>\<open>try\<close> block turns the outcome of the
  \<^verbatim>\<open>fetch\<close> into the returned body (\<open>Inr\<close>) or into the message of the error it throws
  (\<open>Inl\<close>): an abort becomes the timeout error, a response that is not \<^verbatim>\<open>ok\<close> becomes
  an error with \<^verbatim>\<open>errorData.detail || `HTTP ${status}: ${statusText}`\<close> (an absent or
  empty detail is falsy), and any other error is thrown on as it is.
\<close>

definition request_result :: "'a fetch_outcome \<Rightarrow> string + 'a" where
  "request_result outcome =
     (case outcome of
        Aborted \<Rightarrow> Inl ''Request timeout - please try again''
      | Rejected msg \<Rightarrow> Inl msg
      | HttpError status statusText detail \<Rightarrow>
          Inl (case detail of
                 Some d \<Rightarrow> if d \<noteq> [] then d else ''HTTP '' @ show_nat status @ '': '' @ statusText
               | None \<Rightarrow> ''HTTP '' @ show_nat status @ '': '' @ statusText)
      | HttpOk data \<Rightarrow> Inr data)"

text \<open>The request is appended to the log of the requests issued so far.\<close>

definition makeRequest ::
  "request \<Rightarrow> 'a fetch_outcome \<Rightarrow> request list \<Rightarrow> (string + 'a) \<times> request list" where
  "makeRequest req outcome log = (request_result outcome, log @ [req])"

definition api_getVideoPreview ::
  "string \<Rightarrow> video_info fetch_outcome \<Rightarrow> request list \<Rightarrow> (string + video_info) \<times> request list" where
  "api_getVideoPreview url =
     makeRequest \<lparr>endpoint = ''/preview'', http_method = ''POST'', body = PreviewData (trim url)\<rparr>"

definition api_downloadVideo ::
  "string \<Rightarrow> string option \<Rightarrow> string option \<Rightarrow> download_response fetch_outcome \<Rightarrow> request list
     \<Rightarrow> (string + download_response) \<times> request list" where
  "api_downloadVideo url qual formatId =
     makeRequest \<lparr>endpoint = ''/download'', http_method = ''POST'',
                  body = DownloadData (trim url) qual formatId\<rparr>"

definition api_checkHealth ::
  "unit fetch_outcome \<Rightarrow> request list \<Rightarrow> (string + unit) \<times> request list" where
  "api_checkHealth = makeRequest \<lparr>endpoint = ''/health'', http_method = ''GET'', body = NoBody\<rparr>"

text \<open>
  \<^verbatim>\<open>encodeURIComponent\<close>: the unreserved characters stay, every other code unit is
  written as the percent-escaped bytes of its UTF-8 encoding. (It throws on a lone
  surrogate, a code unit outside the modelled range.)
\<close>

definition hex_digit :: "nat \<Rightarrow> char" where
  "hex_digit d = ''0123456789ABCDEF'' ! d"

definition percent :: "nat \<Rightarrow> string" where
  "percent b = [CHR ''%'', hex_digit (b div 16), hex_digit (b mod 16)]"

definition uri_unreserved :: "char \<Rightarrow> bool" where
  "uri_unreserved c = (word_char c \<or> c \<in> set ''-.!~*()'' \<or> c = CHR 0x27)"

definition encodeURIComponent :: "string \<Rightarrow> string" where
  "encodeURIComponent s =
     concat (map (\<lambda>c. if uri_unreserved c then [c]
                       else let n = (of_char c :: nat) in
                         if n < 128 then percent n
                         else percent (192 + n div 64) @ percent (128 + n mod 64)) s)"

text \<open>\<^verbatim>\<open>String(v)\<close> of a field that may be absent: \<^verbatim>\<open>undefined\<close> prints as its name.\<close>

definition js_string :: "string option \<Rightarrow> string" where
  "js_string v = (case v of None \<Rightarrow> ''undefined'' | Some s \<Rightarrow> s)"

definition getDownloadURL :: "string \<Rightarrow> string option \<Rightarrow> string" where
  "getDownloadURL baseURL fname = baseURL @ ''/downloads/'' @ encodeURIComponent (js_string fname)"


section \<open>VideoDownloadApp: state\<close>

text \<open>
  A rendered quality button: its \<^verbatim>\<open>dataset\<close> and whether its class list holds
  \<^verbatim>\<open>selected\<close>.
\<close>

record quality_btn =
  dataset_quality :: string
  dataset_formatId :: string
  dataset_filesize :: string
  selected :: bool

text \<open>
  The fields of \<^verbatim>\<open>VideoDownloadApp\<close>, the parts of the page it reads and writes (for a
  section, whether its class list holds \<^verbatim>\<open>hidden\<close>), the \<^verbatim>\<open>baseURL\<close> of the shared
  \<^verbatim>\<open>VideoAPI\<close>, and the log of the requests issued so far.
\<close>

record app_state =
  currentVideoInfo :: "video_info option"
  selectedQuality :: "string option"
  selectedFormatId :: "string option"
  videoUrl :: string
  loadingSection_hidden :: bool
  previewSection_hidden :: bool
  errorSection_hidden :: bool
  successSection_hidden :: bool
  downloadSection_hidden :: bool
  qualityButtons :: "quality_btn list"
  downloadBtn_disabled :: bool
  downloadLink_href :: string
  downloadLink_download :: string
  videoThumbnail_src :: string
  videoThumbnail_alt :: string
  videoTitle :: string
  videoUploader :: string
  videoDuration :: string
  videoViews :: string
  videoLikes :: string
  selectedQualitySpan :: string
  fileSizeSpan :: string
  errorMessage :: string
  baseURL :: string
  requests :: "request list"


section \<open>VideoDownloadApp: sections\<close>

definition hideAllSections :: "app_state \<Rightarrow> app_state" where
  "hideAllSections s =
     s\<lparr>loadingSection_hidden := True,
       previewSection_hidden := True,
       errorSection_hidden := True,
       successSection_hidden := True,
       downloadSection_hidden := True\<rparr>"

definition showLoading :: "app_state \<Rightarrow> app_state" where
  "showLoading s = (hideAllSections s)\<lparr>loadingSection_hidden := False\<rparr>"

definition showPreview :: "app_state \<Rightarrow> app_state" where
  "showPreview s = (hideAllSections s)\<lparr>previewSection_hidden := False\<rparr>"

definition showDownloadSection :: "app_state \<Rightarrow> app_state" where
  "showDownloadSection s = s\<lparr>downloadSection_hidden := False\<rparr>"

definition showError :: "app_state \<Rightarrow> string \<Rightarrow> app_state" where
  "showError s msg = (hideAllSections s)\<lparr>errorMessage := msg, errorSection_hidden := False\<rparr>"

definition showSuccess :: "app_state \<Rightarrow> download_response \<Rightarrow> app_state" where
  "showSuccess s response =
     (hideAllSections s)
       \<lparr>downloadLink_href := getDownloadURL (baseURL s) (filename response),
        downloadLink_download := js_string (filename response),
        successSection_hidden := False\<rparr>"

definition showUrlSection :: "app_state \<Rightarrow> app_state" where
  "showUrlSection s = hideAllSections s"

definition hideError :: "app_state \<Rightarrow> app_state" where
  "hideError s = s\<lparr>errorSection_hidden := True\<rparr>"

section \<open>VideoDownloadApp: quality selection\<close>

text \<open>
  \<^verbatim>\<open>updateDownloadSection()\<close>: \<^verbatim>\<open>querySelector('.quality-btn.selected')\<close> is the first
  selected button in document order.
\<close>

definition updateDownloadSection :: "app_state \<Rightarrow> app_state" where
  "updateDownloadSection s =
     (case find selected (qualityButtons s) of
        Some selectedButton \<Rightarrow>
          s\<lparr>selectedQualitySpan := ''Quality: '' @ dataset_quality selectedButton,
            fileSizeSpan := ''Size: '' @ dataset_filesize selectedButton\<rparr>
      | None \<Rightarrow> s)"

text \<open>
  \<^verbatim>\<open>handleQualitySelection(button)\<close>. The button is one of the rendered buttons, given
  by its position \<open>i\<close> among them: the click listener only passes on a target inside
  the container that has the class \<^verbatim>\<open>quality-btn\<close>, and \<^verbatim>\<open>generateQualityButtons\<close>
  passes the first rendered button. A position outside the rendered buttons is no
  such event, and the state stays as it is.
\<close>

definition handleQualitySelection :: "app_state \<Rightarrow> nat \<Rightarrow> app_state" where
  "handleQualitySelection s i =
     (if i < length (qualityButtons s) then
        let allButtons = map (\<lambda>btn. btn\<lparr>selected := False\<rparr>) (qualityButtons s);
            button = (allButtons ! i)\<lparr>selected := True\<rparr>;
            s = s\<lparr>qualityButtons := allButtons[i := button]\<rparr>;
            s = s\<lparr>selectedQuality := Some (dataset_quality button),
                  selectedFormatId := Some (dataset_formatId button)\<rparr>
        in showDownloadSection (updateDownloadSection s)
      else s)"

text \<open>
  \<^verbatim>\<open>generateQualityButtons(formats)\<close> empties the container first; \<^verbatim>\<open>formats.forEach\<close>
  throws when the list is \<^verbatim>\<open>null\<close> or absent. The result is the message of the error
  thrown, if any, and the state reached.
\<close>

definition generateQualityButtons :: "app_state \<Rightarrow> format list json_field \<Rightarrow> string option \<times> app_state" where
  "generateQualityButtons s formats_field =
     (let s = s\<lparr>qualityButtons := []\<rparr> in
      case formats_field of
        Given fs \<Rightarrow>
          let s = s\<lparr>qualityButtons :=
                       map (\<lambda>f. \<lparr>dataset_quality = quality f,
                                 dataset_formatId = format_id f,
                                 dataset_filesize = filesize_formatted f,
                                 selected = False\<rparr>) fs\<rparr>
          in (None, if qualityButtons s \<noteq> [] then handleQualitySelection s 0 else s)
      | _ \<Rightarrow> (Some (cannot_read formats_field ''forEach''), s))"

text \<open>
  \<^verbatim>\<open>displayVideoPreview(videoInfo)\<close> writes the details in the order of the source and
  stops at the first statement that throws.
\<close>

definition displayVideoPreview :: "app_state \<Rightarrow> video_info \<Rightarrow> string option \<times> app_state" where
  "displayVideoPreview s videoInfo =
     (let s = s\<lparr>videoThumbnail_src := thumbnail videoInfo,
                videoThumbnail_alt := title videoInfo,
                videoTitle := title videoInfo,
                videoUploader := ''By '' @ uploader videoInfo,
                videoDuration := duration_formatted videoInfo\<rparr>
      in case formatNumber_field (view_count videoInfo) of
           Inl error_message \<Rightarrow> (Some error_message, s)
         | Inr views \<Rightarrow>
             let s = s\<lparr>videoViews := views @ '' views''\<rparr>
             in case formatNumber_field (like_count videoInfo) of
                  Inl error_message \<Rightarrow> (Some error_message, s)
                | Inr likes \<Rightarrow>
                    generateQualityButtons (s\<lparr>videoLikes := likes @ '' likes''\<rparr>) (formats videoInfo))"

section \<open>VideoDownloadApp: preview and download\<close>

text \<open>
  An asynchronous handler awaits at most one request; its model takes the outcome of
  that request as an argument and returns the state when the handler has run to its end.

  In \<^verbatim>\<open>getVideoPreview(url)\<close> the assignment to \<^verbatim>\<open>currentVideoInfo\<close> and the call of
  \<^verbatim>\<open>displayVideoPreview\<close> stand in the same \<^verbatim>\<open>try\<close> block as the request: an error
  thrown while the preview is displayed reaches the same \<^verbatim>\<open>catch\<close>, in the state that
  the statements before it have left.
\<close>

definition getVideoPreview :: "app_state \<Rightarrow> string \<Rightarrow> video_info fetch_outcome \<Rightarrow> app_state" where
  "getVideoPreview s url outcome =
     (let s = showLoading s;
          (result, log) = api_getVideoPreview url outcome (requests s);
          s = s\<lparr>requests := log\<rparr>
      in case result of
           Inr videoInfo \<Rightarrow>
             (case displayVideoPreview (s\<lparr>currentVideoInfo := Some videoInfo\<rparr>) videoInfo of
                (None, s) \<Rightarrow> showPreview s
              | (Some error_message, s) \<Rightarrow> showError s (handleError error_message))
         | Inl error_message \<Rightarrow> showError s (handleError error_message))"

definition handlePreviewClick :: "app_state \<Rightarrow> video_info fetch_outcome \<Rightarrow> app_state" where
  "handlePreviewClick s outcome =
     (let url = trim (videoUrl s) in
      if url = [] then showError s ''Please enter a YouTube video URL''
      else if \<not> validateYouTubeURL url then showError s ''Please enter a valid YouTube video URL''
      else getVideoPreview s url outcome)"

text \<open>
  \<^verbatim>\<open>downloadVideo()\<close>: the button is busy from the start of the call until the
  \<^verbatim>\<open>finally\<close> block. In \<^verbatim>\<open>response.message || 'Download failed'\<close> an absent or empty
  message is falsy.
\<close>

definition downloadVideo :: "app_state \<Rightarrow> download_response fetch_outcome \<Rightarrow> app_state" where
  "downloadVideo s outcome =
     (let s = s\<lparr>downloadBtn_disabled := True\<rparr>;
          (result, log) =
            api_downloadVideo (videoUrl s) (selectedQuality s) (selectedFormatId s) outcome (requests s);
          s = s\<lparr>requests := log\<rparr>;
          s = (case result of
                 Inr response \<Rightarrow>
                   if success response then showSuccess s response
                   else showError s
                     (case message response of
                        Some m \<Rightarrow> if m \<noteq> [] then m else ''Download failed''
                      | None \<Rightarrow> ''Download failed'')
               | Inl error_message \<Rightarrow> showError s (handleError error_message))
      in s\<lparr>downloadBtn_disabled := False\<rparr>)"

text \<open>
  \<^verbatim>\<open>handleDownloadClick()\<close>: \<^verbatim>\<open>null\<close> and the empty string are the falsy values of
  \<^verbatim>\<open>selectedQuality\<close>.
\<close>

definition handleDownloadClick :: "app_state \<Rightarrow> download_response fetch_outcome \<Rightarrow> app_state" where
  "handleDownloadClick s outcome =
     (if currentVideoInfo s = None \<or> selectedQuality s = None \<or> selectedQuality s = Some []
      then showError s ''Please select a video quality first''
      else downloadVideo s outcome)"

definition handleRetryClick :: "app_state \<Rightarrow> app_state" where
  "handleRetryClick s = showUrlSection (hideError s)"

definition reset :: "app_state \<Rightarrow> app_state" where
  "reset s =
     hideAllSections
       (s\<lparr>currentVideoInfo := None, selectedQuality := None, selectedFormatId := None,
          videoUrl := []\<rparr>)"

text \<open>
  \<^verbatim>\<open>checkAPIHealth()\<close>: the request is issued and its outcome is only written to the
  console.
\<close>

definition checkAPIHealth :: "app_state \<Rightarrow> unit fetch_outcome \<Rightarrow> app_state" where
  "checkAPIHealth s outcome = s\<lparr>requests := snd (api_checkHealth outcome (requests s))\<rparr>"

text \<open>
  The events of the page: the user edits the URL field, presses the preview button (or
  Enter), clicks the rendered quality button at a position, presses the download
  button, presses retry, or presses Escape.
\<close>

datatype event =
    EditUrl string
  | PreviewClick "video_info fetch_outcome"
  | QualityClick nat
  | DownloadClick "download_response fetch_outcome"
  | RetryClick
  | EscapeKey

fun handle :: "app_state \<Rightarrow> event \<Rightarrow> app_state" where
  "handle s (EditUrl v) = s\<lparr>videoUrl := v\<rparr>"
| "handle s (PreviewClick outcome) = handlePreviewClick s outcome"
| "handle s (QualityClick i) = handleQualitySelection s i"
| "handle s (DownloadClick outcome) = handleDownloadClick s outcome"
| "handle s RetryClick = handleRetryClick s"
| "handle s EscapeKey = reset s"

text \<open>
  The state of a freshly constructed \<^verbatim>\<open>VideoDownloadApp\<close> on a page whose sections are
  all hidden and whose fields are empty, with the \<^verbatim>\<open>baseURL\<close> of the constructor of
  \<^verbatim>\<open>VideoAPI\<close>. The constructor runs \<^verbatim>\<open>init()\<close>, whose \<^verbatim>\<open>checkAPIHealth()\<close> has
  issued the health request.
\<close>

definition initial :: app_state where
  "initial =
     \<lparr>currentVideoInfo = None, selectedQuality = None, selectedFormatId = None,
      videoUrl = [],
      loadingSection_hidden = True, previewSection_hidden = True, errorSection_hidden = True,
      successSection_hidden = True, downloadSection_hidden = True,
      qualityButtons = [], downloadBtn_disabled = False,
      downloadLink_href = [], downloadLink_download = [],
      videoThumbnail_src = [], videoThumbnail_alt = [], videoTitle = [], videoUploader = [],
      videoDuration = [], videoViews = [], videoLikes = [],
      selectedQualitySpan = [], fileSizeSpan = [], errorMessage = [],
      baseURL = ''https://nb-video-downloader-backend-production.up.railway.app/'',
      requests = [\<lparr>endpoint = ''/health'', http_method = ''GET'', body = NoBody\<rparr>]\<rparr>"


section \<open>Vocabulary of the properties\<close>

text \<open>The strings a regular expression matches in full.\<close>

fun lang :: "regex \<Rightarrow> string set" where
  "lang (Lit w) = {w}"
| "lang (Cls p) = {[c] | c. p c}"
| "lang (Opt r) = insert [] (lang r)"
| "lang (Plus p) = {w. w \<noteq> [] \<and> list_all p w}"
| "lang (Cat a b) = {u @ v | u v. u \<in> lang a \<and> v \<in> lang b}"
| "lang (Grp r) = lang r"

text \<open>
  The recognised URL shapes: \<^verbatim>\<open>http(s)://[www.]youtube.com/watch?v=<id>\<close>,
  \<^verbatim>\<open>http(s)://youtu.be/<id>\<close>, \<^verbatim>\<open>http(s)://[www.]youtube.com/embed/<id>\<close> and
  \<^verbatim>\<open>http(s)://[www.]youtube.com/v/<id>\<close>, where \<^verbatim>\<open><id>\<close> is a non-empty run of
  letters, digits, underscores and dashes, and anything may follow.
\<close>

definition video_id :: "string \<Rightarrow> bool" where
  "video_id ident = (ident \<noteq> [] \<and> list_all word_or_dash ident)"

definition recognized_shape :: "string \<Rightarrow> bool" where
  "recognized_shape u =
     (\<exists>sch www ident rest.
        (sch = ''http'' \<or> sch = ''https'') \<and> (www = [] \<or> www = ''www.'') \<and> video_id ident \<and>
        (u = sch @ ''://'' @ www @ ''youtube.com/watch?v='' @ ident @ rest \<or>
         u = sch @ ''://youtu.be/'' @ ident @ rest \<or>
         u = sch @ ''://'' @ www @ ''youtube.com/embed/'' @ ident @ rest \<or>
         u = sch @ ''://'' @ www @ ''youtube.com/v/'' @ ident @ rest))"

text \<open>
  The capture of the first pattern of a list that matches somewhere in the string.
\<close>

fun first_capture :: "regex list \<Rightarrow> string \<Rightarrow> string option" where
  "first_capture [] s = None"
| "first_capture (r # rs) s = (case match_group r s of Some g \<Rightarrow> g | None \<Rightarrow> first_capture rs s)"

text \<open>The number that a string of decimal digits denotes.\<close>

definition read_nat :: "string \<Rightarrow> nat" where
  "read_nat s = foldl (\<lambda>a c. 10 * a + (of_char c - 48)) 0 s"

text \<open>
  \<open>out\<close> is \<open>num / unit\<close> with one decimal place and the suffix: the digits of the
  tenths \<open>n\<close> with a point before the last one, where \<open>n / 10\<close> is within one
  twentieth of \<open>num / unit\<close>.
\<close>

definition one_decimal :: "nat \<Rightarrow> nat \<Rightarrow> string \<Rightarrow> string \<Rightarrow> bool" where
  "one_decimal num unit suffix out =
     (\<exists>n. out = show_nat (n div 10) @ ''.'' @ show_nat (n mod 10) @ suffix \<and>
          2 * \<bar>int n * int (unit div 10) - int num\<bar> \<le> int (unit div 10))"

text \<open>The sections of the page that are not hidden, in the order of \<^verbatim>\<open>hideAllSections\<close>.\<close>

datatype region = LoadingSection | PreviewSection | ErrorSection | SuccessSection | DownloadSection

definition visible :: "app_state \<Rightarrow> region list" where
  "visible s =
     (if loadingSection_hidden s then [] else [LoadingSection]) @
     (if previewSection_hidden s then [] else [PreviewSection]) @
     (if errorSection_hidden s then [] else [ErrorSection]) @
     (if successSection_hidden s then [] else [SuccessSection]) @
     (if downloadSection_hidden s then [] else [DownloadSection])"

text \<open>
  The body of a preview response has every field that \<^verbatim>\<open>displayVideoPreview\<close>
  dereferences.
\<close>

definition complete :: "video_info \<Rightarrow> bool" where
  "complete videoInfo =
     ((case view_count videoInfo of Given v \<Rightarrow> True | _ \<Rightarrow> False) \<and>
      (case like_count videoInfo of Given l \<Rightarrow> True | _ \<Rightarrow> False) \<and>
      (case formats videoInfo of Given fs \<Rightarrow> True | _ \<Rightarrow> False))"

text \<open>
  A download has failed when the request threw, or when the body of the response says
  \<^verbatim>\<open>success: false\<close>.
\<close>

definition download_failed :: "download_response fetch_outcome \<Rightarrow> bool" where
  "download_failed outcome = (case outcome of HttpOk response \<Rightarrow> \<not> success response | _ \<Rightarrow> True)"

text \<open>
  A preview with the formats 1080p (f1, 50MB) and 720p (f2, 30MB), and the state of the
  page after this preview has been shown for \<^verbatim>\<open>https://youtu.be/dQw4w9WgXcQ\<close>.
\<close>

definition sample_preview :: video_info where
  "sample_preview =
     \<lparr>title = ''Sample video'', uploader = ''Sample channel'', duration_formatted = ''3:33'',
      view_count = Given 2300000, like_count = Given 1500,
      thumbnail = ''https://i.ytimg.com/vi/dQw4w9WgXcQ/hqdefault.jpg'',
      formats = Given [\<lparr>quality = ''1080p'', format_id = ''f1'', filesize_formatted = ''50MB''\<rparr>,
                       \<lparr>quality = ''720p'', format_id = ''f2'', filesize_formatted = ''30MB''\<rparr>]\<rparr>"

definition previewed :: app_state where
  "previewed =
     foldl handle initial [EditUrl ''https://youtu.be/dQw4w9WgXcQ'', PreviewClick (HttpOk sample_preview)]"

text \<open>
  A response to a later preview request whose \<^verbatim>\<open>like_count\<close> is \<^verbatim>\<open>null\<close>.
\<close>

definition unrated_preview :: video_info where
  "unrated_preview =
     \<lparr>title = ''Another video'', uploader = ''Another channel'', duration_formatted = ''1:00'',
      view_count = Given 999, like_count = Null,
      thumbnail = ''https://i.ytimg.com/vi/other-video/hqdefault.jpg'',
      formats = Given [\<lparr>quality = ''360p'', format_id = ''f3'', filesize_formatted = ''10MB''\<rparr>]\<rparr>"

section \<open>The regular expression matcher\<close>

lemma starts_with_iff: "starts_with w s \<longleftrightarrow> (\<exists>t. s = w @ t)"
  by (induction w s rule: starts_with.induct) auto

lemma plus_ends_iff: "t \<in> set (plus_ends p s) \<longleftrightarrow> (\<exists>w. w \<noteq> [] \<and> list_all p w \<and> s = w @ t)"
proof (induction s)
  case Nil
  then show ?case by simp
next
  case (Cons c s)
  show ?case
  proof (cases "p c")
    case False
    then show ?thesis by (auto simp: Cons_eq_append_conv)
  next
    case True
    show ?thesis
    proof
      assume "t \<in> set (plus_ends p (c # s))"
      with True have "t \<in> set (plus_ends p s) \<or> t = s" by auto
      then show "\<exists>w. w \<noteq> [] \<and> list_all p w \<and> c # s = w @ t"
      proof
        assume "t \<in> set (plus_ends p s)"
        with Cons.IH obtain w where "w \<noteq> []" "list_all p w" "s = w @ t" by blast
        with True have "c # w \<noteq> [] \<and> list_all p (c # w) \<and> c # s = (c # w) @ t" by simp
        then show ?thesis by blast
      next
        assume "t = s"
        with True have "[c] \<noteq> [] \<and> list_all p [c] \<and> c # s = [c] @ t" by simp
        then show ?thesis by blast
      qed
    next
      assume "\<exists>w. w \<noteq> [] \<and> list_all p w \<and> c # s = w @ t"
      then obtain w where w: "w \<noteq> []" "list_all p w" "c # s = w @ t" by blast
      then obtain w' where w': "w = c # w'" by (cases w) auto
      show "t \<in> set (plus_ends p (c # s))"
      proof (cases "w' = []")
        case True
        with w w' \<open>p c\<close> show ?thesis by simp
      next
        case False
        with w w' have "t \<in> set (plus_ends p s)" using Cons.IH by auto
        with \<open>p c\<close> show ?thesis by simp
      qed
    qed
  qed
qed

lemma rx_lang: "t \<in> snd ` set (rx r s) \<longleftrightarrow> (\<exists>w \<in> lang r. s = w @ t)"
proof (induction r arbitrary: s t)
  case (Lit w)
  then show ?case by (auto simp: starts_with_iff)
next
  case (Cls p)
  then show ?case by (auto split: list.splits)
next
  case (Opt r)
  then show ?case by (auto simp: image_Un)
next
  case (Plus p)
  then show ?case by (simp add: image_image plus_ends_iff)
next
  case (Cat a b)
  have "snd ` set (rx (Cat a b) s) = (\<Union>x \<in> set (rx a s). snd ` set (rx b (snd x)))"
    by (simp add: image_UN image_image split_def)
  then have "t \<in> snd ` set (rx (Cat a b) s) \<longleftrightarrow> (\<exists>m \<in> snd ` set (rx a s). t \<in> snd ` set (rx b m))"
    by simp
  also have "\<dots> \<longleftrightarrow> (\<exists>m. (\<exists>u \<in> lang a. s = u @ m) \<and> (\<exists>v \<in> lang b. m = v @ t))"
    using Cat.IH by blast
  also have "\<dots> \<longleftrightarrow> (\<exists>w \<in> lang (Cat a b). s = w @ t)"
  proof
    assume "\<exists>m. (\<exists>u \<in> lang a. s = u @ m) \<and> (\<exists>v \<in> lang b. m = v @ t)"
    then obtain u v where "u \<in> lang a" "v \<in> lang b" "s = (u @ v) @ t" by auto
    then show "\<exists>w \<in> lang (Cat a b). s = w @ t" by (simp only: lang.simps) blast
  next
    assume "\<exists>w \<in> lang (Cat a b). s = w @ t"
    then obtain u v where "u \<in> lang a" "v \<in> lang b" "s = u @ (v @ t)" by auto
    then show "\<exists>m. (\<exists>u \<in> lang a. s = u @ m) \<and> (\<exists>v \<in> lang b. m = v @ t)" by blast
  qed
  finally show ?case .
next
  case (Grp r)
  have "snd ` set (rx (Grp r) s) = snd ` set (rx r s)"
    by (simp add: image_image split_def)
  with Grp show ?case by simp
qed

lemma test_anchored_iff: "test_anchored r s \<longleftrightarrow> (\<exists>w \<in> lang r. \<exists>t. s = w @ t)"
proof -
  have "rx r s \<noteq> [] \<longleftrightarrow> (\<exists>t. t \<in> snd ` set (rx r s))"
    by (cases "rx r s") auto
  then show ?thesis unfolding test_anchored_def rx_lang by blast
qed

lemma lang_Cat: "lang (Cat a b) = (\<Union>x \<in> lang a. (@) x ` lang b)"
  by auto

lemma lang_scheme: "lang scheme = {''http://'', ''https://''}"
  by (auto simp: scheme_def)

lemma lang_short:
  "w \<in> lang (Cat scheme (Cat (Lit ''youtu.be/'') (Plus word_or_dash))) \<longleftrightarrow>
     (\<exists>sch ident. (sch = ''http'' \<or> sch = ''https'') \<and> video_id ident \<and>
        w = sch @ ''://youtu.be/'' @ ident)"
  unfolding video_id_def
  by (simp del: lang.simps(5) add: lang_Cat lang_scheme image_iff conj_disj_distribR ex_disj_distrib)

lemma lang_www_youtube:
  "w \<in> lang (www_youtube path) \<longleftrightarrow>
     (\<exists>sch www ident. (sch = ''http'' \<or> sch = ''https'') \<and> (www = [] \<or> www = ''www.'') \<and> video_id ident \<and>
        w = sch @ ''://'' @ www @ ''youtube.com'' @ path @ ident)"
  unfolding www_youtube_def video_id_def
  by (simp del: lang.simps(5) add: lang_Cat lang_scheme image_iff bex_Un conj_disj_distribR ex_disj_distrib)


lemma test_www_youtubeI:
  assumes "sch = ''http'' \<or> sch = ''https''" "www = [] \<or> www = ''www.''" "video_id ident"
  shows "test_anchored (www_youtube path) (sch @ ''://'' @ www @ ''youtube.com'' @ path @ ident @ rest)"
proof -
  have "sch @ ''://'' @ www @ ''youtube.com'' @ path @ ident \<in> lang (www_youtube path)"
    unfolding lang_www_youtube using assms by blast
  moreover have "sch @ ''://'' @ www @ ''youtube.com'' @ path @ ident @ rest
      = (sch @ ''://'' @ www @ ''youtube.com'' @ path @ ident) @ rest"
    by simp
  ultimately show ?thesis unfolding test_anchored_iff by blast
qed

lemma test_www_youtubeE:
  assumes "test_anchored (www_youtube path) t"
  obtains sch www ident rest where "sch = ''http'' \<or> sch = ''https''" "www = [] \<or> www = ''www.''"
    "video_id ident" "t = sch @ ''://'' @ www @ ''youtube.com'' @ path @ ident @ rest"
proof -
  from assms obtain w rest where w: "w \<in> lang (www_youtube path)" "t = w @ rest"
    unfolding test_anchored_iff by blast
  from w(1) obtain sch www ident where *: "sch = ''http'' \<or> sch = ''https''" "www = [] \<or> www = ''www.''"
    "video_id ident" "w = sch @ ''://'' @ www @ ''youtube.com'' @ path @ ident"
    unfolding lang_www_youtube by blast
  from w(2) *(4) have "t = sch @ ''://'' @ www @ ''youtube.com'' @ path @ ident @ rest" by simp
  with * that show thesis by blast
qed

lemma test_shortI:
  assumes "sch = ''http'' \<or> sch = ''https''" "video_id ident"
  shows "test_anchored (Cat scheme (Cat (Lit ''youtu.be/'') (Plus word_or_dash)))
           (sch @ ''://youtu.be/'' @ ident @ rest)"
proof -
  have "sch @ ''://youtu.be/'' @ ident \<in> lang (Cat scheme (Cat (Lit ''youtu.be/'') (Plus word_or_dash)))"
    unfolding lang_short using assms by blast
  moreover have "sch @ ''://youtu.be/'' @ ident @ rest = (sch @ ''://youtu.be/'' @ ident) @ rest"
    by simp
  ultimately show ?thesis unfolding test_anchored_iff by blast
qed

lemma test_shortE:
  assumes "test_anchored (Cat scheme (Cat (Lit ''youtu.be/'') (Plus word_or_dash))) t"
  obtains sch ident rest where "sch = ''http'' \<or> sch = ''https''"
    "video_id ident" "t = sch @ ''://youtu.be/'' @ ident @ rest"
proof -
  from assms obtain w rest where w: "w \<in> lang (Cat scheme (Cat (Lit ''youtu.be/'') (Plus word_or_dash)))"
    "t = w @ rest"
    unfolding test_anchored_iff by blast
  from w(1) obtain sch ident where *: "sch = ''http'' \<or> sch = ''https''"
    "video_id ident" "w = sch @ ''://youtu.be/'' @ ident"
    unfolding lang_short by blast
  from w(2) *(3) have "t = sch @ ''://youtu.be/'' @ ident @ rest" by simp
  with * that show thesis by blast
qed

lemma patterns_recognized:
  "list_ex (\<lambda>pattern. test_anchored pattern t) patterns \<longleftrightarrow> recognized_shape t"
proof
  assume "list_ex (\<lambda>pattern. test_anchored pattern t) patterns"
  then consider "test_anchored (www_youtube ''/watch?v='') t"
    | "test_anchored (Cat scheme (Cat (Lit ''youtu.be/'') (Plus word_or_dash))) t"
    | "test_anchored (www_youtube ''/embed/'') t"
    | "test_anchored (www_youtube ''/v/'') t"
    unfolding patterns_def by auto
  then show "recognized_shape t"
  proof cases
    case 1
    then obtain sch www ident rest where "sch = ''http'' \<or> sch = ''https''" "www = [] \<or> www = ''www.''"
      "video_id ident" "t = sch @ ''://'' @ www @ ''youtube.com'' @ ''/watch?v='' @ ident @ rest"
      by (rule test_www_youtubeE)
    then show ?thesis unfolding recognized_shape_def
      by (intro exI[of _ sch] exI[of _ www] exI[of _ ident] exI[of _ rest]) simp
  next
    case 2
    then obtain sch ident rest where "sch = ''http'' \<or> sch = ''https''"
      "video_id ident" "t = sch @ ''://youtu.be/'' @ ident @ rest"
      by (rule test_shortE)
    then show ?thesis unfolding recognized_shape_def
      by (intro exI[of _ sch] exI[of _ "[]"] exI[of _ ident] exI[of _ rest]) simp
  next
    case 3
    then obtain sch www ident rest where "sch = ''http'' \<or> sch = ''https''" "www = [] \<or> www = ''www.''"
      "video_id ident" "t = sch @ ''://'' @ www @ ''youtube.com'' @ ''/embed/'' @ ident @ rest"
      by (rule test_www_youtubeE)
    then show ?thesis unfolding recognized_shape_def
      by (intro exI[of _ sch] exI[of _ www] exI[of _ ident] exI[of _ rest]) simp
  next
    case 4
    then obtain sch www ident rest where "sch = ''http'' \<or> sch = ''https''" "www = [] \<or> www = ''www.''"
      "video_id ident" "t = sch @ ''://'' @ www @ ''youtube.com'' @ ''/v/'' @ ident @ rest"
      by (rule test_www_youtubeE)
    then show ?thesis unfolding recognized_shape_def
      by (intro exI[of _ sch] exI[of _ www] exI[of _ ident] exI[of _ rest]) simp
  qed
next
  assume "recognized_shape t"
  then obtain sch www ident rest where h: "sch = ''http'' \<or> sch = ''https''" "www = [] \<or> www = ''www.''"
    "video_id ident" and
    t: "t = sch @ ''://'' @ www @ ''youtube.com/watch?v='' @ ident @ rest \<or>
        t = sch @ ''://youtu.be/'' @ ident @ rest \<or>
        t = sch @ ''://'' @ www @ ''youtube.com/embed/'' @ ident @ rest \<or>
        t = sch @ ''://'' @ www @ ''youtube.com/v/'' @ ident @ rest"
    unfolding recognized_shape_def by blast
  from t consider
      "t = sch @ ''://'' @ www @ ''youtube.com'' @ ''/watch?v='' @ ident @ rest"
    | "t = sch @ ''://youtu.be/'' @ ident @ rest"
    | "t = sch @ ''://'' @ www @ ''youtube.com'' @ ''/embed/'' @ ident @ rest"
    | "t = sch @ ''://'' @ www @ ''youtube.com'' @ ''/v/'' @ ident @ rest"
    by auto
  then show "list_ex (\<lambda>pattern. test_anchored pattern t) patterns"
  proof cases
    case 1
    with h have "test_anchored (www_youtube ''/watch?v='') t" by (simp only: test_www_youtubeI)
    then show ?thesis unfolding patterns_def by simp
  next
    case 2
    with h have "test_anchored (Cat scheme (Cat (Lit ''youtu.be/'') (Plus word_or_dash))) t"
      by (simp only: test_shortI)
    then show ?thesis unfolding patterns_def by simp
  next
    case 3
    with h have "test_anchored (www_youtube ''/embed/'') t" by (simp only: test_www_youtubeI)
    then show ?thesis unfolding patterns_def by simp
  next
    case 4
    with h have "test_anchored (www_youtube ''/v/'') t" by (simp only: test_www_youtubeI)
    then show ?thesis unfolding patterns_def by simp
  qed
qed


lemma trim_Nil: "trim [] = []"
  by (simp add: trim_def)

lemma word_or_dash_not_space: "word_or_dash c \<Longrightarrow> \<not> is_space c"
  by (auto simp: word_or_dash_def word_char_def is_space_def Let_def)

lemma trim_keeps_prefix:
  assumes "p \<noteq> []" "\<not> is_space (hd p)" "\<not> is_space (last p)"
  shows "\<exists>rest'. trim (p @ rest) = p @ rest'"
proof -
  from assms(1,2) have lead: "dropWhile is_space (p @ rest) = p @ rest"
    by (cases p) auto
  from assms(1,3) have trail: "dropWhile is_space (rev p) = rev p"
    by (cases "rev p") (auto simp: last_rev[symmetric] simp del: last_rev)
  have "\<exists>zs. dropWhile is_space (rev rest @ rev p) = zs @ rev p"
    by (simp add: dropWhile_append trail)
  then obtain zs where "dropWhile is_space (rev (p @ rest)) = zs @ rev p" by auto
  then have "trim (p @ rest) = p @ rev zs"
    by (simp add: trim_def lead)
  then show ?thesis by blast
qed

lemma video_id_last: "video_id ident \<Longrightarrow> \<not> is_space (last (pre @ ident))"
  by (cases ident rule: rev_cases) (auto simp: video_id_def word_or_dash_not_space)

lemma recognized_shape_trim:
  assumes "recognized_shape u"
  shows "recognized_shape (trim u)"
proof -
  from assms obtain sch www ident rest where h: "sch = ''http'' \<or> sch = ''https''" "www = [] \<or> www = ''www.''"
    "video_id ident" and
    u: "u = sch @ ''://'' @ www @ ''youtube.com/watch?v='' @ ident @ rest \<or>
        u = sch @ ''://youtu.be/'' @ ident @ rest \<or>
        u = sch @ ''://'' @ www @ ''youtube.com/embed/'' @ ident @ rest \<or>
        u = sch @ ''://'' @ www @ ''youtube.com/v/'' @ ident @ rest"
    unfolding recognized_shape_def by blast
  have keep: "\<exists>rest'. trim ((sch @ mid @ ident) @ rest) = (sch @ mid @ ident) @ rest'" for mid
  proof (rule trim_keeps_prefix)
    show "sch @ mid @ ident \<noteq> []" using h(1) by auto
    show "\<not> is_space (hd (sch @ mid @ ident))" using h(1) by (auto simp: is_space_def)
    show "\<not> is_space (last (sch @ mid @ ident))"
      using video_id_last[OF h(3), of "sch @ mid"] by simp
  qed
  from u consider
      "u = (sch @ (''://'' @ www @ ''youtube.com/watch?v='') @ ident) @ rest"
    | "u = (sch @ ''://youtu.be/'' @ ident) @ rest"
    | "u = (sch @ (''://'' @ www @ ''youtube.com/embed/'') @ ident) @ rest"
    | "u = (sch @ (''://'' @ www @ ''youtube.com/v/'') @ ident) @ rest"
    by auto
  then show ?thesis
  proof cases
    case 1
    with keep[of "''://'' @ www @ ''youtube.com/watch?v=''"] obtain rest' where
      "trim u = (sch @ (''://'' @ www @ ''youtube.com/watch?v='') @ ident) @ rest'" by auto
    with h show ?thesis unfolding recognized_shape_def
      by (intro exI[of _ sch] exI[of _ www] exI[of _ ident] exI[of _ rest']) simp
  next
    case 2
    with keep[of "''://youtu.be/''"] obtain rest' where
      "trim u = (sch @ ''://youtu.be/'' @ ident) @ rest'" by auto
    with h show ?thesis unfolding recognized_shape_def
      by (intro exI[of _ sch] exI[of _ www] exI[of _ ident] exI[of _ rest']) simp
  next
    case 3
    with keep[of "''://'' @ www @ ''youtube.com/embed/''"] obtain rest' where
      "trim u = (sch @ (''://'' @ www @ ''youtube.com/embed/'') @ ident) @ rest'" by auto
    with h show ?thesis unfolding recognized_shape_def
      by (intro exI[of _ sch] exI[of _ www] exI[of _ ident] exI[of _ rest']) simp
  next
    case 4
    with keep[of "''://'' @ www @ ''youtube.com/v/''"] obtain rest' where
      "trim u = (sch @ (''://'' @ www @ ''youtube.com/v/'') @ ident) @ rest'" by auto
    with h show ?thesis unfolding recognized_shape_def
      by (intro exI[of _ sch] exI[of _ www] exI[of _ ident] exI[of _ rest']) simp
  qed
qed

lemma recognized_shape_nonempty: "\<not> recognized_shape []"
  unfolding recognized_shape_def by auto

lemma validate_iff_shape: "validateYouTubeURL url \<longleftrightarrow> recognized_shape (trim url)"
proof (cases "url = []")
  case True
  then show ?thesis by (simp add: validateYouTubeURL_def trim_Nil recognized_shape_nonempty)
next
  case False
  then show ?thesis by (simp add: validateYouTubeURL_def patterns_recognized)
qed

lemma vimeo_rejected: "\<not> validateYouTubeURL ''https://vimeo.com/123''"
  by (simp add: validateYouTubeURL_def trim_def is_space_def patterns_def test_anchored_def
      www_youtube_def scheme_def)


lemma match_group_found: "rx r t \<noteq> [] \<Longrightarrow> match_group r (pre @ t) \<noteq> None"
proof (induction pre)
  case Nil
  then show ?case by (cases t) (auto split: list.splits)
next
  case (Cons c pre)
  then show ?case by (auto split: list.splits)
qed

lemma match_group_Some:
  "match_group r s = Some g \<Longrightarrow> \<exists>t rest. (g, rest) \<in> set (rx r t)"
proof (induction s)
  case Nil
  then obtain rest xs where "rx r [] = (g, rest) # xs" by (auto split: list.splits)
  then have "(g, rest) \<in> set (rx r [])" by simp
  then show ?case by blast
next
  case (Cons c s)
  show ?case
  proof (cases "rx r (c # s)")
    case Nil
    with Cons show ?thesis by simp
  next
    case (Cons a list)
    with Cons.prems have "a = (g, snd a)" by (cases a) simp
    with Cons have "(g, snd a) \<in> set (rx r (c # s))" by simp
    then show ?thesis by blast
  qed
qed

lemma capture_Grp_Plus:
  assumes "(g, t) \<in> set (rx (Grp (Plus p)) s)"
  shows "\<exists>x. g = Some x \<and> x \<noteq> []"
proof -
  from assms have t: "t \<in> set (plus_ends p s)" and g: "g = Some (take (length s - length t) s)"
    by auto
  from t obtain w where "w \<noteq> []" "s = w @ t" unfolding plus_ends_iff by blast
  with g show ?thesis by simp
qed

lemma capture_Cat:
  assumes "\<And>s g t. (g, t) \<in> set (rx b s) \<Longrightarrow> \<exists>x. g = Some x \<and> x \<noteq> []"
    and "(g, t) \<in> set (rx (Cat a b) s)"
  shows "\<exists>x. g = Some x \<and> x \<noteq> []"
proof -
  from assms(2) obtain g1 t1 g2 where "(g1, t1) \<in> set (rx a s)" "(g2, t) \<in> set (rx b t1)"
    and g: "g = (case g2 of None \<Rightarrow> g1 | Some x \<Rightarrow> Some x)"
    by auto
  from assms(1)[OF this(2)] g show ?thesis by auto
qed

lemma capture_watch: "(g, t) \<in> set (rx watch_rx s) \<Longrightarrow> \<exists>x. g = Some x \<and> x \<noteq> []"
  unfolding watch_rx_def by (erule capture_Cat[rotated], erule capture_Cat[rotated], erule capture_Grp_Plus)

lemma capture_short: "(g, t) \<in> set (rx short_rx s) \<Longrightarrow> \<exists>x. g = Some x \<and> x \<noteq> []"
  unfolding short_rx_def by (erule capture_Cat[rotated], erule capture_Grp_Plus)

lemma capture_embed: "(g, t) \<in> set (rx embed_rx s) \<Longrightarrow> \<exists>x. g = Some x \<and> x \<noteq> []"
  unfolding embed_rx_def by (erule capture_Cat[rotated], erule capture_Grp_Plus)

lemma capture_v: "(g, t) \<in> set (rx v_rx s) \<Longrightarrow> \<exists>x. g = Some x \<and> x \<noteq> []"
  unfolding v_rx_def by (erule capture_Cat[rotated], erule capture_Grp_Plus)

lemma first_capture_nonempty:
  assumes "first_capture [watch_rx, short_rx, embed_rx, v_rx] s = Some x"
  shows "x \<noteq> []"
  using assms
  by (auto split: option.splits dest!: match_group_Some dest: capture_watch capture_short capture_embed capture_v)

lemma video_id_head: "video_id ident \<Longrightarrow> \<exists>c cs. ident = c # cs \<and> c \<noteq> CHR ''&'' \<and> c \<noteq> CHR ''?''"
  by (cases ident) (auto simp: video_id_def word_or_dash_def word_char_def)

lemma watch_found: "c \<noteq> CHR ''&'' \<Longrightarrow> match_group watch_rx (pre @ ''?v='' @ c # rest) \<noteq> None"
  by (rule match_group_found) (simp add: watch_rx_def)

lemma short_found: "c \<noteq> CHR ''?'' \<Longrightarrow> match_group short_rx (pre @ ''youtu.be/'' @ c # rest) \<noteq> None"
  by (rule match_group_found) (simp add: short_rx_def)

lemma embed_found: "c \<noteq> CHR ''?'' \<Longrightarrow> match_group embed_rx (pre @ ''embed/'' @ c # rest) \<noteq> None"
  by (rule match_group_found) (simp add: embed_rx_def)

lemma v_found: "c \<noteq> CHR ''?'' \<Longrightarrow> match_group v_rx (pre @ ''/v/'' @ c # rest) \<noteq> None"
  by (rule match_group_found) (simp add: v_rx_def)


lemma extraction_group:
  assumes "r \<in> {watch_rx, short_rx, embed_rx, v_rx}" "match_group r s = Some g"
  shows "\<exists>x. g = Some x \<and> x \<noteq> []"
proof -
  from assms(2) obtain t rest where "(g, rest) \<in> set (rx r t)"
    using match_group_Some by blast
  with assms(1) show ?thesis
    using capture_watch capture_short capture_embed capture_v by blast
qed

lemma first_capture_None:
  assumes "first_capture [watch_rx, short_rx, embed_rx, v_rx] s = None"
  shows "match_group watch_rx s = None \<and> match_group short_rx s = None \<and>
         match_group embed_rx s = None \<and> match_group v_rx s = None"
proof -
  have none: "match_group r s \<noteq> Some None" if "r \<in> {watch_rx, short_rx, embed_rx, v_rx}" for r
    using extraction_group[OF that] by fastforce
  from none[of watch_rx] none[of short_rx] none[of embed_rx] none[of v_rx] assms
  show ?thesis by (auto split: option.splits)
qed

lemma extractVideoID_first_capture:
  "extractVideoID url =
     (if validateYouTubeURL url then first_capture [watch_rx, short_rx, embed_rx, v_rx] (trim url) else None)"
  by (simp add: extractVideoID_def Let_def split: option.splits)

lemma first_capture_shape:
  assumes "recognized_shape t"
  shows "first_capture [watch_rx, short_rx, embed_rx, v_rx] t \<noteq> None"
proof
  assume "first_capture [watch_rx, short_rx, embed_rx, v_rx] t = None"
  then have none: "match_group watch_rx t = None" "match_group short_rx t = None"
    "match_group embed_rx t = None" "match_group v_rx t = None"
    using first_capture_None by blast+
  from assms obtain sch www ident rest where "video_id ident" and
    t: "t = sch @ ''://'' @ www @ ''youtube.com/watch?v='' @ ident @ rest \<or>
        t = sch @ ''://youtu.be/'' @ ident @ rest \<or>
        t = sch @ ''://'' @ www @ ''youtube.com/embed/'' @ ident @ rest \<or>
        t = sch @ ''://'' @ www @ ''youtube.com/v/'' @ ident @ rest"
    unfolding recognized_shape_def by blast
  from this(1) obtain c cs where c: "ident = c # cs" "c \<noteq> CHR ''&''" "c \<noteq> CHR ''?''"
    using video_id_head by blast
  from t c(1) consider
      "t = (sch @ ''://'' @ www @ ''youtube.com/watch'') @ ''?v='' @ c # (cs @ rest)"
    | "t = (sch @ ''://'') @ ''youtu.be/'' @ c # (cs @ rest)"
    | "t = (sch @ ''://'' @ www @ ''youtube.com/'') @ ''embed/'' @ c # (cs @ rest)"
    | "t = (sch @ ''://'' @ www @ ''youtube.com'') @ ''/v/'' @ c # (cs @ rest)"
    by auto
  then show False
  proof cases
    case 1
    have "match_group watch_rx t \<noteq> None" unfolding 1 by (rule watch_found[OF c(2)])
    with none(1) show False by simp
  next
    case 2
    have "match_group short_rx t \<noteq> None" unfolding 2 by (rule short_found[OF c(3)])
    with none(2) show False by simp
  next
    case 3
    have "match_group embed_rx t \<noteq> None" unfolding 3 by (rule embed_found[OF c(3)])
    with none(3) show False by simp
  next
    case 4
    have "match_group v_rx t \<noteq> None" unfolding 4 by (rule v_found[OF c(3)])
    with none(4) show False by simp
  qed
qed

lemma extractVideoID_valid:
  assumes "validateYouTubeURL url"
  shows "\<exists>x. x \<noteq> [] \<and> extractVideoID url = Some x"
proof -
  from assms have "recognized_shape (trim url)" by (simp add: validate_iff_shape)
  then obtain x where x: "first_capture [watch_rx, short_rx, embed_rx, v_rx] (trim url) = Some x"
    using first_capture_shape by blast
  then have "x \<noteq> []" by (rule first_capture_nonempty)
  with x assms show ?thesis by (simp add: extractVideoID_first_capture)
qed

subsection \<open>URL validation\<close>

lemmas url_defs = extractVideoID_def validateYouTubeURL_def trim_def is_space_def patterns_def
  test_anchored_def www_youtube_def scheme_def word_or_dash_def word_char_def
  watch_rx_def short_rx_def embed_rx_def v_rx_def

text \<open>
  C8: \<^verbatim>\<open>validateYouTubeURL\<close> returns true exactly for the strings that, once trimmed,
  begin with one of the four recognised URL shapes; in particular it returns true for
  every string of a recognised shape and false for every string without one, such as
  \<^verbatim>\<open>https://vimeo.com/123\<close>.
\<close>

theorem validateYouTubeURL_shapes:
  "(\<forall>url. validateYouTubeURL url \<longleftrightarrow> recognized_shape (trim url)) \<and>
   (\<forall>url. recognized_shape url \<longrightarrow> validateYouTubeURL url) \<and>
   \<not> validateYouTubeURL ''https://vimeo.com/123''"
  using validate_iff_shape recognized_shape_trim vimeo_rejected by blast

theorem validateYouTubeURL_shapes_witness:
  "recognized_shape ''https://www.youtube.com/watch?v=dQw4w9WgXcQ'' \<and>
   validateYouTubeURL ''https://www.youtube.com/watch?v=dQw4w9WgXcQ''"
proof -
  have shape: "recognized_shape ''https://www.youtube.com/watch?v=dQw4w9WgXcQ''"
    unfolding recognized_shape_def
    by (intro exI[of _ "''https''"] exI[of _ "''www.''"] exI[of _ "''dQw4w9WgXcQ''"] exI[of _ "[]"])
      (simp add: video_id_def word_or_dash_def word_char_def)
  with validateYouTubeURL_shapes show ?thesis by blast
qed

subsection \<open>Video id extraction\<close>

lemma extract_short: "extractVideoID ''https://youtu.be/abc123'' = Some ''abc123''"
  by (simp add: url_defs)

lemma extract_watch: "extractVideoID ''https://www.youtube.com/watch?v=abc123&t=5'' = Some ''abc123''"
  by (simp add: url_defs)

lemma extract_invalid: "\<not> validateYouTubeURL url \<Longrightarrow> extractVideoID url = None"
  by (simp add: extractVideoID_def)

text \<open>
  The extraction patterns are tried in their own order, whatever shape made the URL
  valid: a short link with a \<^verbatim>\<open>v\<close> parameter yields the parameter.
\<close>

lemma extract_order_example: "extractVideoID ''https://youtu.be/abc123?v=xyz'' = Some ''xyz''"
  by (simp add: url_defs)

text \<open>
  C3, as the claim states it: \<^verbatim>\<open>extractVideoID("https://x.com/watch?v=abc123&t=5")\<close>
  would be \<^verbatim>\<open>"abc123"\<close>. The URL is on no recognised host, the guard
  \<^verbatim>\<open>validateYouTubeURL\<close> refuses it, and the result is \<^verbatim>\<open>null\<close>.
\<close>

theorem extractVideoID_other_host: "extractVideoID ''https://x.com/watch?v=abc123&t=5'' = None"
  by (simp add: url_defs)

text \<open>
  C3, amended: \<^verbatim>\<open>extractVideoID("https://youtu.be/abc123")\<close> and
  \<^verbatim>\<open>extractVideoID("https://www.youtube.com/watch?v=abc123&t=5")\<close> return
  \<^verbatim>\<open>"abc123"\<close>; for every URL that \<^verbatim>\<open>validateYouTubeURL\<close> refuses the result is
  \<^verbatim>\<open>null\<close>; and for every URL it accepts the result is the capture of the first of the
  four extraction patterns \<^verbatim>\<open>[?&]v=([^&]+)\<close>, \<^verbatim>\<open>youtu\.be\/([^?]+)\<close>,
  \<^verbatim>\<open>embed\/([^?]+)\<close>, \<^verbatim>\<open>\/v\/([^?]+)\<close> that matches in the trimmed URL, which is a
  non-empty string.
\<close>

theorem extractVideoID_first_match:
  "extractVideoID ''https://youtu.be/abc123'' = Some ''abc123'' \<and>
   extractVideoID ''https://www.youtube.com/watch?v=abc123&t=5'' = Some ''abc123'' \<and>
   (\<forall>url. \<not> validateYouTubeURL url \<longrightarrow> extractVideoID url = None) \<and>
   (\<forall>url. validateYouTubeURL url \<longrightarrow>
      extractVideoID url = first_capture [watch_rx, short_rx, embed_rx, v_rx] (trim url) \<and>
      (\<exists>x. x \<noteq> [] \<and> extractVideoID url = Some x))"
proof (intro conjI allI impI)
  show "extractVideoID ''https://youtu.be/abc123'' = Some ''abc123''"
    by (rule extract_short)
  show "extractVideoID ''https://www.youtube.com/watch?v=abc123&t=5'' = Some ''abc123''"
    by (rule extract_watch)
next
  fix url assume "\<not> validateYouTubeURL url"
  then show "extractVideoID url = None" by (rule extract_invalid)
next
  fix url assume "validateYouTubeURL url"
  then show "extractVideoID url = first_capture [watch_rx, short_rx, embed_rx, v_rx] (trim url)"
    by (simp add: extractVideoID_first_capture)
next
  fix url assume "validateYouTubeURL url"
  then show "\<exists>x. x \<noteq> [] \<and> extractVideoID url = Some x" by (rule extractVideoID_valid)
qed

theorem extractVideoID_first_match_witness:
  "validateYouTubeURL ''https://www.youtube.com/embed/abc123?rel=0'' \<and>
   extractVideoID ''https://www.youtube.com/embed/abc123?rel=0'' = Some ''abc123'' \<and>
   first_capture [watch_rx, short_rx, embed_rx, v_rx] ''https://www.youtube.com/embed/abc123?rel=0''
     = Some ''abc123'' \<and>
   \<not> validateYouTubeURL ''https://vimeo.com/123'' \<and> extractVideoID ''https://vimeo.com/123'' = None"
proof -
  have v: "validateYouTubeURL ''https://www.youtube.com/embed/abc123?rel=0''"
    by (simp add: url_defs)
  have t: "trim ''https://www.youtube.com/embed/abc123?rel=0'' = ''https://www.youtube.com/embed/abc123?rel=0''"
    by (simp add: trim_def is_space_def)
  have e: "extractVideoID ''https://www.youtube.com/embed/abc123?rel=0'' = Some ''abc123''"
    by (simp add: url_defs)
  have n: "\<not> validateYouTubeURL ''https://vimeo.com/123''"
    by (simp add: url_defs)
  from extractVideoID_first_match v
  have "extractVideoID ''https://www.youtube.com/embed/abc123?rel=0''
      = first_capture [watch_rx, short_rx, embed_rx, v_rx] (trim ''https://www.youtube.com/embed/abc123?rel=0'')"
    by blast
  moreover from extractVideoID_first_match n have "extractVideoID ''https://vimeo.com/123'' = None"
    by blast
  ultimately show ?thesis using v e n unfolding t by simp
qed

section \<open>Number formatting\<close>

lemma show_nat_digit: "n < 10 \<Longrightarrow> show_nat n = [digit_char n]"
  by (simp add: show_nat.simps)

lemma show_nat_step: "10 \<le> n \<Longrightarrow> show_nat n = show_nat (n div 10) @ [digit_char (n mod 10)]"
  by (subst show_nat.simps) simp

lemma show_nat_nonempty: "show_nat n \<noteq> []"
  by (subst show_nat.simps) simp

lemma digit_char_code:
  fixes d :: nat
  assumes "d < 10"
  shows "(of_char (digit_char d) :: nat) = 48 + d \<and> digit_char d \<in> set ''0123456789''"
proof -
  from assms have "d = 0 \<or> d = 1 \<or> d = 2 \<or> d = 3 \<or> d = 4 \<or> d = 5 \<or> d = 6 \<or> d = 7 \<or> d = 8 \<or> d = 9"
    by presburger
  then show ?thesis by (elim disjE) (simp_all add: digit_char_def)
qed

lemma read_nat_snoc: "read_nat (s @ [c]) = 10 * read_nat s + (of_char c - 48)"
  by (simp add: read_nat_def)

lemma show_nat_decimal: "read_nat (show_nat n) = n \<and> set (show_nat n) \<subseteq> set ''0123456789''"
proof (induction n rule: show_nat.induct)
  case (1 n)
  show ?case
  proof (cases "n < 10")
    case True
    with digit_char_code[of n] show ?thesis
      by (simp add: show_nat_digit read_nat_def)
  next
    case False
    with 1 have IH: "read_nat (show_nat (n div 10)) = n div 10"
      "set (show_nat (n div 10)) \<subseteq> set ''0123456789''" by simp_all
    have d: "(of_char (digit_char (n mod 10)) :: nat) = 48 + n mod 10"
      "digit_char (n mod 10) \<in> set ''0123456789''"
      using digit_char_code[of "n mod 10"] by simp_all
    from False have "show_nat n = show_nat (n div 10) @ [digit_char (n mod 10)]"
      by (simp add: show_nat_step)
    with IH d show ?thesis by (simp add: read_nat_snoc)
  qed
qed

lemma toFixed1_eq:
  "toFixed1 (p, q) = show_nat ((20 * p + q) div (2 * q) div 10) @ ''.'' @ show_nat ((20 * p + q) div (2 * q) mod 10)"
proof -
  define n where "n = (20 * p + q) div (2 * q)"
  show ?thesis
  proof (cases "n < 10")
    case True
    then have "show_nat n = [digit_char n]" "n div 10 = 0" "n mod 10 = n"
      by (simp_all add: show_nat_digit)
    then show ?thesis
      by (simp add: toFixed1_def n_def[symmetric] Let_def show_nat_digit digit_char_def)
  next
    case False
    then have step: "show_nat n = show_nat (n div 10) @ [digit_char (n mod 10)]"
      by (simp add: show_nat_step)
    have "show_nat (n div 10) \<noteq> []" by (rule show_nat_nonempty)
    then have len: "\<not> length (show_nat n) \<le> 1"
      by (cases "show_nat (n div 10)") (simp_all add: step)
    have "show_nat (n mod 10) = [digit_char (n mod 10)]"
      by (simp add: show_nat_digit)
    with len show ?thesis
      by (simp add: toFixed1_def n_def[symmetric] Let_def) (simp add: step)
  qed
qed

lemma round_half_even_bounds:
  assumes "0 < d"
  shows "2 * (round_half_even n d * d) \<le> 2 * n + d \<and> 2 * n \<le> 2 * (round_half_even n d * d) + d"
proof -
  define q r where "q = n div d" and "r = n mod d"
  have n: "n = q * d + r" by (simp add: q_def r_def)
  have r: "r < d" using assms by (simp add: r_def)
  have m: "round_half_even n d = (if 2 * r < d then q else if d < 2 * r then q + 1 else if even q then q else q + 1)"
    by (simp add: round_half_even_def Let_def q_def r_def)
  define m where "m = round_half_even n d"
  have "m = (if 2 * r < d then q else if d < 2 * r then q + 1 else if even q then q else q + 1)"
    unfolding m_def by (rule m)
  with r have "2 * (m * d) \<le> 2 * (q * d + r) + d \<and> 2 * (q * d + r) \<le> 2 * (m * d) + d"
    by (auto simp: algebra_simps)
  then show ?thesis unfolding m_def n[symmetric] .
qed

lemma bit_length_le: "n < 2 ^ j \<Longrightarrow> bit_length n \<le> j"
proof (induction j arbitrary: n)
  case 0
  then show ?case by (simp add: bit_length.simps)
next
  case (Suc j)
  then have "n div 2 < 2 ^ j" by auto
  with Suc.IH have "bit_length (n div 2) \<le> j" by blast
  then show ?case by (subst bit_length.simps) simp
qed


lemma bit_length_pos: "0 < n \<Longrightarrow> 0 < bit_length n"
  by (subst bit_length.simps) simp

lemma tenth_nearest:
  fixes a b D S m n :: nat
  assumes b: "b = 10 * D" and D: "0 < D" "even D" and S: "b < 2 * S"
    and m1: "2 * (m * b) \<le> 2 * (a * S) + b" and m2: "2 * (a * S) \<le> 2 * (m * b) + b"
    and n: "n = (20 * m + S) div (2 * S)"
  shows "2 * (n * D) \<le> 2 * a + D \<and> 2 * a \<le> 2 * (n * D) + D"
proof -
  from S have Spos: "0 < 2 * S" by simp
  have n1: "n * (2 * S) \<le> 20 * m + S"
    unfolding n by (rule div_times_less_eq_dividend)
  have n2: "20 * m + S < (n + 1) * (2 * S)"
    unfolding n using Spos
    by (metis Suc_eq_plus1 dividend_less_div_times mult.commute mult_Suc)
  from D(2) obtain h where h: "D = 2 * h" by (auto elim: evenE)
  have A: "2 * (n * D) \<le> 2 * a + D"
  proof (rule ccontr)
    assume "\<not> 2 * (n * D) \<le> 2 * a + D"
    then have "2 * a + D + 2 \<le> 2 * (n * D)" unfolding h by presburger
    then have "(2 * a + D + 2) * S \<le> 2 * (n * D) * S" by (rule mult_le_mono1)
    moreover from n1 have "n * (2 * S) * D \<le> (20 * m + S) * D" by (rule mult_le_mono1)
    ultimately have "2 * (a * S) + D * S + 2 * S \<le> 20 * (m * D) + D * S"
      by (simp add: algebra_simps)
    with m1 b S show False by (simp add: algebra_simps)
  qed
  have B: "2 * a \<le> 2 * (n * D) + D"
  proof (rule ccontr)
    assume "\<not> 2 * a \<le> 2 * (n * D) + D"
    then have "2 * (n * D) + D + 2 \<le> 2 * a" unfolding h by presburger
    then have "(2 * (n * D) + D + 2) * S \<le> 2 * a * S" by (rule mult_le_mono1)
    moreover from n2 D have "(20 * m + S) * D < (n + 1) * (2 * S) * D" by simp
    ultimately have "20 * (m * D) + 2 * S \<le> 2 * (a * S)"
      by (simp add: algebra_simps)
    with m2 b S show False by (simp add: algebra_simps)
  qed
  from A B show ?thesis ..
qed

lemma js_div_tenth:
  fixes a b D j :: nat
  assumes b: "b = 10 * D" and D: "0 < D" "even D" and ab: "b \<le> a"
    and j: "a div b < 2 ^ j" "j \<le> 53" "b < 2 * 2 ^ (53 - j)"
  shows "one_decimal a b suffix (toFixed1 (js_div a b) @ suffix)"
proof -
  define k where "k = bit_length (a div b) - 1"
  define S :: nat where "S = 2 ^ (52 - k)"
  define m where "m = round_half_even (a * S) b"
  define n where "n = (20 * m + S) div (2 * S)"
  from b D(1) ab have "0 < a div b" by (simp add: div_greater_zero_iff)
  then have "0 < bit_length (a div b)" by (rule bit_length_pos)
  moreover from j(1) have "bit_length (a div b) \<le> j" by (rule bit_length_le)
  ultimately have k: "k + 1 \<le> j" unfolding k_def by simp
  with j(2) have k52: "k \<le> 52" by simp
  from k j(2) have "53 - j \<le> 52 - k" by simp
  then have "(2::nat) ^ (53 - j) \<le> 2 ^ (52 - k)" by (rule power_increasing) simp
  then have "(2::nat) * 2 ^ (53 - j) \<le> 2 * 2 ^ (52 - k)" by simp
  with j(3) have S: "b < 2 * S" unfolding S_def by (rule less_le_trans)
  have div: "js_div a b = (m, S)"
    unfolding js_div_def Let_def k_def[symmetric] S_def m_def using k52 by simp
  from b D(1) have "0 < b" by simp
  then have "2 * (m * b) \<le> 2 * (a * S) + b \<and> 2 * (a * S) \<le> 2 * (m * b) + b"
    unfolding m_def by (rule round_half_even_bounds)
  then have near: "2 * (n * D) \<le> 2 * a + D \<and> 2 * a \<le> 2 * (n * D) + D"
    using tenth_nearest[OF b D S _ _ n_def] by blast
  have out: "toFixed1 (js_div a b) @ suffix = show_nat (n div 10) @ ''.'' @ show_nat (n mod 10) @ suffix"
    unfolding div toFixed1_eq n_def by simp
  from b have "b div 10 = D" by simp
  moreover have "2 * \<bar>int n * int D - int a\<bar> \<le> int D"
  proof -
    from near have "int (2 * (n * D)) \<le> int (2 * a + D)" "int (2 * a) \<le> int (2 * (n * D) + D)"
      by (simp_all only: of_nat_le_iff)
    then have "2 * (int n * int D) \<le> 2 * int a + int D" "2 * int a \<le> 2 * (int n * int D) + int D"
      by simp_all
    then show ?thesis by (simp add: abs_if)
  qed
  ultimately show ?thesis
    unfolding one_decimal_def out by blast
qed

lemma formatNumber_plain: "num < 1000 \<Longrightarrow> formatNumber num = show_nat num"
  by (simp add: formatNumber_def)

lemma formatNumber_K:
  assumes "1000 \<le> num" "num < 1000000"
  shows "one_decimal num 1000 ''K'' (formatNumber num)"
proof -
  from assms(2) have "num div 1000 < 2 ^ 10" by simp
  then have "one_decimal num 1000 ''K'' (toFixed1 (js_div num 1000) @ ''K'')"
    using assms(1) by (intro js_div_tenth[where D = 100 and j = 10]) simp_all
  with assms show ?thesis by (simp add: formatNumber_def)
qed

lemma formatNumber_M:
  assumes "1000000 \<le> num" "num < 1000000000"
  shows "one_decimal num 1000000 ''M'' (formatNumber num)"
proof -
  from assms(2) have "num div 1000000 < 2 ^ 10" by simp
  then have "one_decimal num 1000000 ''M'' (toFixed1 (js_div num 1000000) @ ''M'')"
    using assms(1) by (intro js_div_tenth[where D = 100000 and j = 10]) simp_all
  with assms show ?thesis by (simp add: formatNumber_def)
qed

lemma formatNumber_B:
  assumes "1000000000 \<le> num" "num < 9007199254740992"
  shows "one_decimal num 1000000000 ''B'' (formatNumber num)"
proof -
  from assms(2) have "num div 1000000000 < 2 ^ 24" by simp
  then have "one_decimal num 1000000000 ''B'' (toFixed1 (js_div num 1000000000) @ ''B'')"
    using assms(1) by (intro js_div_tenth[where D = 100000000 and j = 24]) simp_all
  with assms show ?thesis by (simp add: formatNumber_def)
qed

lemmas fn_defs = formatNumber_def toFixed1_def js_div_def round_half_even_def bit_length.simps
  show_nat.simps digit_char_def Let_def

lemma formatNumber_999: "formatNumber 999 = ''999''"
  by (simp add: fn_defs)

lemma formatNumber_1500: "formatNumber 1500 = ''1.5K''"
  by (simp add: fn_defs)

lemma formatNumber_2300000: "formatNumber 2300000 = ''2.3M''"
  by (simp add: fn_defs)

text \<open>
  C9: below 1000 \<^verbatim>\<open>formatNumber\<close> returns the decimal digits of the count; from 1000,
  1000000 and 1000000000 on it returns the count divided by that unit, with one decimal
  place, followed by \<^verbatim>\<open>K\<close>, \<^verbatim>\<open>M\<close> and \<^verbatim>\<open>B\<close>. The counts are the integers
  below \<open>2^53\<close>. In particular \<^verbatim>\<open>formatNumber(999)\<close> is \<^verbatim>\<open>"999"\<close>,
  \<^verbatim>\<open>formatNumber(1500)\<close> is \<^verbatim>\<open>"1.5K"\<close> and \<^verbatim>\<open>formatNumber(2300000)\<close> is
  \<^verbatim>\<open>"2.3M"\<close>.
\<close>

theorem formatNumber_scales:
  "(\<forall>num < 9007199254740992.
      (num < 1000 \<longrightarrow> formatNumber num = show_nat num \<and> read_nat (formatNumber num) = num \<and>
         set (formatNumber num) \<subseteq> set ''0123456789'') \<and>
      (1000 \<le> num \<and> num < 1000000 \<longrightarrow> one_decimal num 1000 ''K'' (formatNumber num)) \<and>
      (1000000 \<le> num \<and> num < 1000000000 \<longrightarrow> one_decimal num 1000000 ''M'' (formatNumber num)) \<and>
      (1000000000 \<le> num \<longrightarrow> one_decimal num 1000000000 ''B'' (formatNumber num))) \<and>
   formatNumber 999 = ''999'' \<and> formatNumber 1500 = ''1.5K'' \<and> formatNumber 2300000 = ''2.3M''"
proof (intro conjI allI impI)
  fix num :: nat
  assume "num < 1000"
  then show "formatNumber num = show_nat num" by (rule formatNumber_plain)
  then show "read_nat (formatNumber num) = num" "set (formatNumber num) \<subseteq> set ''0123456789''"
    using show_nat_decimal[of num] by simp_all
next
  fix num :: nat
  assume "1000 \<le> num \<and> num < 1000000"
  then show "one_decimal num 1000 ''K'' (formatNumber num)" by (simp add: formatNumber_K)
next
  fix num :: nat
  assume "1000000 \<le> num \<and> num < 1000000000"
  then show "one_decimal num 1000000 ''M'' (formatNumber num)" by (simp add: formatNumber_M)
next
  fix num :: nat
  assume "num < 9007199254740992" "1000000000 \<le> num"
  then show "one_decimal num 1000000000 ''B'' (formatNumber num)" by (simp add: formatNumber_B)
qed (rule formatNumber_999 formatNumber_1500 formatNumber_2300000)+

theorem formatNumber_scales_witness:
  "one_decimal 1500 1000 ''K'' ''1.5K'' \<and> one_decimal 2300000 1000000 ''M'' ''2.3M'' \<and>
   formatNumber 999 = show_nat 999"
proof -
  note scales = formatNumber_scales[THEN conjunct1, rule_format]
  have "one_decimal 1500 1000 ''K'' (formatNumber 1500)"
    using scales[of 1500] by simp
  moreover have "one_decimal 2300000 1000000 ''M'' (formatNumber 2300000)"
    using scales[of 2300000] by simp
  moreover have "formatNumber 999 = show_nat 999"
    using scales[of 999] by simp
  ultimately show ?thesis by (simp add: formatNumber_1500 formatNumber_2300000)
qed

section \<open>The page\<close>

subsection \<open>Sections and requests\<close>

lemmas section_defs = hideAllSections_def showLoading_def showPreview_def showDownloadSection_def
  showError_def showSuccess_def showUrlSection_def hideError_def

lemmas api_defs = api_getVideoPreview_def api_downloadVideo_def makeRequest_def

lemma visible_showError: "visible (showError s msg) = [ErrorSection]"
  by (simp add: visible_def section_defs)

lemma visible_showSuccess: "visible (showSuccess s response) = [SuccessSection]"
  by (simp add: visible_def section_defs)

lemma visible_downloadBtn: "visible (s\<lparr>downloadBtn_disabled := b\<rparr>) = visible s"
  by (simp add: visible_def)

lemma downloadVideo_cases:
  "downloadVideo s outcome =
     (let s' = s\<lparr>downloadBtn_disabled := True,
                  requests := requests s @ [\<lparr>endpoint = ''/download'', http_method = ''POST'',
                     body = DownloadData (trim (videoUrl s)) (selectedQuality s) (selectedFormatId s)\<rparr>]\<rparr>
      in (case request_result outcome of
            Inr response \<Rightarrow>
              if success response then showSuccess s' response
              else showError s'
                (case message response of
                   Some m \<Rightarrow> if m \<noteq> [] then m else ''Download failed''
                 | None \<Rightarrow> ''Download failed'')
          | Inl error_message \<Rightarrow> showError s' (handleError error_message))\<lparr>downloadBtn_disabled := False\<rparr>)"
  by (simp add: downloadVideo_def api_defs Let_def split: sum.splits)

lemma getVideoPreview_cases:
  "getVideoPreview s url outcome =
     (let s' = (showLoading s)\<lparr>requests := requests s @ [\<lparr>endpoint = ''/preview'', http_method = ''POST'',
                     body = PreviewData (trim url)\<rparr>]\<rparr>
      in case request_result outcome of
           Inr videoInfo \<Rightarrow>
             (case displayVideoPreview (s'\<lparr>currentVideoInfo := Some videoInfo\<rparr>) videoInfo of
                (None, s) \<Rightarrow> showPreview s
              | (Some error_message, s) \<Rightarrow> showError s (handleError error_message))
         | Inl error_message \<Rightarrow> showError s' (handleError error_message))"
  by (simp add: getVideoPreview_def api_defs Let_def section_defs split: sum.splits)

text \<open>\<^verbatim>\<open>VideoAPI.getVideoPreview\<close> itself issues its request for any URL.\<close>

lemma api_getVideoPreview_unchecked:
  "snd (api_getVideoPreview url outcome log) =
     log @ [\<lparr>endpoint = ''/preview'', http_method = ''POST'', body = PreviewData (trim url)\<rparr>]"
  by (simp add: api_getVideoPreview_def makeRequest_def)

lemma trim_ends: "trim s = [] \<or> (\<not> is_space (hd (trim s)) \<and> \<not> is_space (last (trim s)))"
proof (cases "trim s = []")
  case True
  then show ?thesis by simp
next
  case False
  define a where "a = dropWhile is_space s"
  define b where "b = dropWhile is_space (rev a)"
  have t: "trim s = rev b" by (simp add: trim_def a_def b_def)
  with False have b: "b \<noteq> []" by simp
  then have hb: "\<not> is_space (hd b)" unfolding b_def by (rule hd_dropWhile)
  from b have a: "a \<noteq> []" unfolding b_def by auto
  then have ha: "\<not> is_space (hd a)" unfolding a_def by (rule hd_dropWhile)
  obtain zs where "rev a = zs @ b"
    unfolding b_def by (metis takeWhile_dropWhile_id)
  with b have "last b = last (rev a)" by simp
  with a have "last b = hd a" by (simp add: last_rev)
  with ha hb b show ?thesis by (simp add: t hd_rev last_rev)
qed

lemma trim_fixed:
  assumes "t = [] \<or> (\<not> is_space (hd t) \<and> \<not> is_space (last t))"
  shows "trim t = t"
proof (cases "t = []")
  case True
  then show ?thesis by (simp add: trim_def)
next
  case False
  with assms have h: "\<not> is_space (hd t)" "\<not> is_space (last t)" by auto
  from False h(1) have 1: "dropWhile is_space t = t" by (cases t) auto
  from False h(2) have 2: "dropWhile is_space (rev t) = rev t"
    by (cases "rev t") (auto simp: last_rev[symmetric] simp del: last_rev)
  show ?thesis by (simp add: trim_def 1 2)
qed

lemma trim_trim: "trim (trim s) = trim s"
  using trim_ends by (rule trim_fixed)

lemma validate_trim: "validateYouTubeURL (trim url) = validateYouTubeURL url"
  by (simp add: validate_iff_shape trim_trim)

lemma validate_nonempty: "validateYouTubeURL url \<Longrightarrow> trim url \<noteq> []"
  using recognized_shape_nonempty by (auto simp: validate_iff_shape)

lemma handlePreviewClick_invalid:
  assumes "\<not> validateYouTubeURL (videoUrl s)"
  shows "handlePreviewClick s outcome =
     showError s (if trim (videoUrl s) = [] then ''Please enter a YouTube video URL''
                  else ''Please enter a valid YouTube video URL'')"
  using assms by (simp add: handlePreviewClick_def Let_def validate_trim)

lemma handlePreviewClick_valid:
  assumes "validateYouTubeURL (videoUrl s)"
  shows "handlePreviewClick s outcome = getVideoPreview s (trim (videoUrl s)) outcome"
  using assms validate_nonempty[OF assms] by (simp add: handlePreviewClick_def Let_def validate_trim)

lemma requests_showError: "requests (showError s msg) = requests s"
  by (simp add: section_defs)

lemma errorMessage_showError: "errorMessage (showError s msg) = msg"
  by (simp add: section_defs)

lemma downloadVideo_failed:
  assumes "request_result outcome = Inl error_message"
  shows "errorMessage (downloadVideo s outcome) = handleError error_message"
  using assms by (simp add: downloadVideo_cases Let_def section_defs)

lemma downloadVideo_refused:
  assumes "\<not> success response"
  shows "errorMessage (downloadVideo s (HttpOk response)) =
     (case message response of
        Some m \<Rightarrow> if m \<noteq> [] then m else ''Download failed''
      | None \<Rightarrow> ''Download failed'')"
  using assms by (simp add: downloadVideo_cases request_result_def Let_def section_defs)

subsection \<open>Quality selection\<close>

lemma find_selected_update:
  assumes "i < length bs" "selected x"
  shows "find selected ((map (\<lambda>btn. btn\<lparr>selected := False\<rparr>) bs)[i := x]) = Some x"
proof -
  let ?ds = "map (\<lambda>btn. btn\<lparr>selected := False\<rparr>) bs"
  have "\<exists>j<length (?ds[i := x]). selected (?ds[i := x] ! j) \<and> x = ?ds[i := x] ! j \<and>
          (\<forall>k<j. \<not> selected (?ds[i := x] ! k))"
    using assms by (intro exI[of _ i]) simp
  then show ?thesis by (simp only: find_Some_iff)
qed

lemma filter_selected_update:
  assumes "i < length bs" "selected x"
  shows "filter selected ((map (\<lambda>btn. btn\<lparr>selected := False\<rparr>) bs)[i := x]) = [x]"
proof -
  let ?ds = "map (\<lambda>btn. btn\<lparr>selected := False\<rparr>) bs"
  have none: "filter selected (take n ?ds) = []" "filter selected (drop n ?ds) = []" for n
    by (auto simp: filter_empty_conv dest!: in_set_takeD in_set_dropD)
  from assms(1) have "?ds[i := x] = take i ?ds @ x # drop (Suc i) ?ds"
    by (simp add: upd_conv_take_nth_drop)
  with assms(2) none show ?thesis by simp
qed

lemma handleQualitySelection_eq:
  assumes "i < length (qualityButtons s)"
  shows "handleQualitySelection s i =
     s\<lparr>qualityButtons := (map (\<lambda>btn. btn\<lparr>selected := False\<rparr>) (qualityButtons s))
                            [i := (qualityButtons s ! i)\<lparr>selected := True\<rparr>],
       selectedQuality := Some (dataset_quality (qualityButtons s ! i)),
       selectedFormatId := Some (dataset_formatId (qualityButtons s ! i)),
       selectedQualitySpan := ''Quality: '' @ dataset_quality (qualityButtons s ! i),
       fileSizeSpan := ''Size: '' @ dataset_filesize (qualityButtons s ! i),
       downloadSection_hidden := False\<rparr>"
proof -
  let ?x = "(map (\<lambda>btn. btn\<lparr>selected := False\<rparr>) (qualityButtons s) ! i)\<lparr>selected := True\<rparr>"
  have x: "?x = (qualityButtons s ! i)\<lparr>selected := True\<rparr>" using assms by simp
  have "find selected ((map (\<lambda>btn. btn\<lparr>selected := False\<rparr>) (qualityButtons s))[i := ?x]) = Some ?x"
    using assms by (intro find_selected_update) simp_all
  with assms show ?thesis
    unfolding handleQualitySelection_def Let_def updateDownloadSection_def showDownloadSection_def
    by (simp add: x)
qed

lemma handleQualitySelection_idem:
  assumes "i < length (qualityButtons s)"
  shows "handleQualitySelection (handleQualitySelection s i) i = handleQualitySelection s i"
proof -
  let ?d = "\<lambda>btn. btn\<lparr>selected := False\<rparr>"
  let ?bs = "qualityButtons s"
  let ?bs' = "(map ?d ?bs)[i := (?bs ! i)\<lparr>selected := True\<rparr>]"
  have len: "i < length ?bs'" using assms by simp
  have nth: "?bs' ! i = (?bs ! i)\<lparr>selected := True\<rparr>" using assms by simp
  have again: "(map ?d ?bs')[i := (?bs ! i)\<lparr>selected := True\<rparr>] = ?bs'"
    using assms by (intro nth_equalityI) (auto simp: nth_list_update)
  have 1: "handleQualitySelection s i =
     s\<lparr>qualityButtons := ?bs',
       selectedQuality := Some (dataset_quality (?bs ! i)),
       selectedFormatId := Some (dataset_formatId (?bs ! i)),
       selectedQualitySpan := ''Quality: '' @ dataset_quality (?bs ! i),
       fileSizeSpan := ''Size: '' @ dataset_filesize (?bs ! i),
       downloadSection_hidden := False\<rparr>" (is "_ = ?s'")
    using assms by (rule handleQualitySelection_eq)
  have q: "qualityButtons ?s' = ?bs'" by simp
  have "handleQualitySelection ?s' i = ?s'"
    by (subst handleQualitySelection_eq) (simp_all only: q len, simp add: again nth)
  then show ?thesis unfolding 1 .
qed

subsection \<open>What a preview leaves behind\<close>

lemma generateQualityButtons_given:
  "generateQualityButtons s (Given fs) =
     (None,
      if fs = [] then s\<lparr>qualityButtons := []\<rparr>
      else handleQualitySelection
             (s\<lparr>qualityButtons :=
                   map (\<lambda>f. \<lparr>dataset_quality = quality f,
                             dataset_formatId = format_id f,
                             dataset_filesize = filesize_formatted f,
                             selected = False\<rparr>) fs\<rparr>) 0)"
  by (simp add: generateQualityButtons_def Let_def)

lemma generateQualityButtons_thrown:
  "fs = Null \<or> fs = Absent \<Longrightarrow>
   generateQualityButtons s fs = (Some (cannot_read fs ''forEach''), s\<lparr>qualityButtons := []\<rparr>)"
  by (auto simp: generateQualityButtons_def Let_def)

lemma generateQualityButtons_frame:
  "requests (snd (generateQualityButtons s fs)) = requests s \<and>
   videoUrl (snd (generateQualityButtons s fs)) = videoUrl s \<and>
   currentVideoInfo (snd (generateQualityButtons s fs)) = currentVideoInfo s"
proof (cases fs)
  case (Given formats)
  then show ?thesis
    by (cases formats) (simp_all add: generateQualityButtons_given handleQualitySelection_eq)
qed (simp_all add: generateQualityButtons_thrown)

lemma generateQualityButtons_unselected:
  "fst (generateQualityButtons s fs) = Some error_message \<Longrightarrow>
   selectedQuality (snd (generateQualityButtons s fs)) = selectedQuality s \<and>
   selectedFormatId (snd (generateQualityButtons s fs)) = selectedFormatId s"
  by (cases fs) (simp_all add: generateQualityButtons_given generateQualityButtons_thrown)

lemma generateQualityButtons_first:
  "selectedQuality (snd (generateQualityButtons s (Given (f # fs)))) = Some (quality f) \<and>
   selectedFormatId (snd (generateQualityButtons s (Given (f # fs)))) = Some (format_id f)"
  by (simp add: generateQualityButtons_given handleQualitySelection_eq)

lemma generateQualityButtons_buttons:
  "map dataset_quality (qualityButtons (snd (generateQualityButtons s (Given fs)))) = map quality fs \<and>
   map dataset_formatId (qualityButtons (snd (generateQualityButtons s (Given fs)))) = map format_id fs \<and>
   map dataset_filesize (qualityButtons (snd (generateQualityButtons s (Given fs))))
     = map filesize_formatted fs"
proof (cases fs)
  case Nil
  then show ?thesis by (simp add: generateQualityButtons_given)
next
  case (Cons f fs')
  then show ?thesis
    by (simp add: generateQualityButtons_given handleQualitySelection_eq comp_def)
qed

lemma displayVideoPreview_complete:
  assumes "view_count videoInfo = Given v" "like_count videoInfo = Given l" "formats videoInfo = Given fs"
  shows "displayVideoPreview s videoInfo =
     generateQualityButtons
       (s\<lparr>videoThumbnail_src := thumbnail videoInfo,
          videoThumbnail_alt := title videoInfo,
          videoTitle := title videoInfo,
          videoUploader := ''By '' @ uploader videoInfo,
          videoDuration := duration_formatted videoInfo,
          videoViews := formatNumber v @ '' views'',
          videoLikes := formatNumber l @ '' likes''\<rparr>)
       (Given fs)"
  using assms by (simp add: displayVideoPreview_def formatNumber_field_def Let_def)

lemma displayVideoPreview_frame:
  "requests (snd (displayVideoPreview s videoInfo)) = requests s \<and>
   videoUrl (snd (displayVideoPreview s videoInfo)) = videoUrl s \<and>
   currentVideoInfo (snd (displayVideoPreview s videoInfo)) = currentVideoInfo s"
  unfolding displayVideoPreview_def Let_def
  by (simp add: generateQualityButtons_frame split: sum.splits)

lemma displayVideoPreview_thrown:
  assumes "\<not> complete videoInfo"
  shows "\<exists>error_message. fst (displayVideoPreview s videoInfo) = Some error_message \<and>
     selectedQuality (snd (displayVideoPreview s videoInfo)) = selectedQuality s \<and>
     selectedFormatId (snd (displayVideoPreview s videoInfo)) = selectedFormatId s"
proof (cases "formatNumber_field (view_count videoInfo)")
  case (Inl e)
  then show ?thesis by (simp add: displayVideoPreview_def Let_def)
next
  case views: (Inr views)
  show ?thesis
  proof (cases "formatNumber_field (like_count videoInfo)")
    case (Inl e)
    with views show ?thesis by (simp add: displayVideoPreview_def Let_def)
  next
    case likes: (Inr likes)
    from views likes assms have fs: "formats videoInfo = Null \<or> formats videoInfo = Absent"
      by (auto simp: complete_def formatNumber_field_def split: json_field.splits)
    with views likes show ?thesis
      by (simp add: displayVideoPreview_def Let_def generateQualityButtons_thrown)
  qed
qed

lemma getVideoPreview_ok:
  assumes "view_count videoInfo = Given v" "like_count videoInfo = Given l" "formats videoInfo = Given fs"
  shows "requests (getVideoPreview s url (HttpOk videoInfo)) =
     requests s @ [\<lparr>endpoint = ''/preview'', http_method = ''POST'', body = PreviewData (trim url)\<rparr>] \<and>
   videoUrl (getVideoPreview s url (HttpOk videoInfo)) = videoUrl s \<and>
   currentVideoInfo (getVideoPreview s url (HttpOk videoInfo)) = Some videoInfo \<and>
   visible (getVideoPreview s url (HttpOk videoInfo)) = [PreviewSection] \<and>
   (\<forall>f fs'. fs = f # fs' \<longrightarrow>
      selectedQuality (getVideoPreview s url (HttpOk videoInfo)) = Some (quality f) \<and>
      selectedFormatId (getVideoPreview s url (HttpOk videoInfo)) = Some (format_id f)) \<and>
   map dataset_quality (qualityButtons (getVideoPreview s url (HttpOk videoInfo))) = map quality fs \<and>
   map dataset_formatId (qualityButtons (getVideoPreview s url (HttpOk videoInfo))) = map format_id fs"
proof -
  let ?s = "(showLoading s)\<lparr>requests := requests s @ [\<lparr>endpoint = ''/preview'', http_method = ''POST'',
                     body = PreviewData (trim url)\<rparr>], currentVideoInfo := Some videoInfo\<rparr>"
  let ?t = "?s\<lparr>videoThumbnail_src := thumbnail videoInfo,
          videoThumbnail_alt := title videoInfo,
          videoTitle := title videoInfo,
          videoUploader := ''By '' @ uploader videoInfo,
          videoDuration := duration_formatted videoInfo,
          videoViews := formatNumber v @ '' views'',
          videoLikes := formatNumber l @ '' likes''\<rparr>"
  have d: "displayVideoPreview ?s videoInfo = generateQualityButtons ?t (Given fs)"
    using assms by (rule displayVideoPreview_complete)
  have g: "fst (generateQualityButtons ?t (Given fs)) = None"
    by (simp add: generateQualityButtons_given)
  then obtain t where t: "generateQualityButtons ?t (Given fs) = (None, t)"
    by (cases "generateQualityButtons ?t (Given fs)") auto
  have "getVideoPreview s url (HttpOk videoInfo) =
      (case displayVideoPreview ?s videoInfo of
         (None, s) \<Rightarrow> showPreview s
       | (Some error_message, s) \<Rightarrow> showError s (handleError error_message))"
    by (simp add: getVideoPreview_cases request_result_def Let_def)
  also have "\<dots> = showPreview (snd (generateQualityButtons ?t (Given fs)))"
    unfolding d t by simp
  finally have eq: "getVideoPreview s url (HttpOk videoInfo) =
      showPreview (snd (generateQualityButtons ?t (Given fs)))" .
  show ?thesis
    unfolding eq
    using generateQualityButtons_frame[of ?t "Given fs"] generateQualityButtons_first[of ?t _ _]
      generateQualityButtons_buttons[of ?t fs]
    by (simp add: showPreview_def hideAllSections_def showLoading_def visible_def)
qed

lemma nth_of_map_eq:
  assumes "map g xs = map h ys" "i < length ys"
  shows "g (xs ! i) = h (ys ! i)"
proof -
  from assms(1) have "length xs = length ys" by (rule map_eq_imp_length_eq)
  with assms(2) have "g (xs ! i) = map g xs ! i" by simp
  also have "\<dots> = map h ys ! i" by (simp only: assms(1))
  also have "\<dots> = h (ys ! i)" using assms(2) by simp
  finally show ?thesis .
qed

lemma getVideoPreview_failed:
  assumes "request_result outcome = Inl error_message"
  shows "getVideoPreview s url outcome =
     showError ((showLoading s)\<lparr>requests := requests s @
         [\<lparr>endpoint = ''/preview'', http_method = ''POST'', body = PreviewData (trim url)\<rparr>]\<rparr>)
       (handleError error_message)"
  using assms by (simp add: getVideoPreview_cases Let_def)

text \<open>
  When the response arrives and the display of it throws, the new body has already been
  stored, the selection is still the old one, and the error section is shown.
\<close>

lemma getVideoPreview_undisplayed:
  assumes "\<not> complete videoInfo"
  shows "currentVideoInfo (getVideoPreview s url (HttpOk videoInfo)) = Some videoInfo \<and>
     selectedQuality (getVideoPreview s url (HttpOk videoInfo)) = selectedQuality s \<and>
     selectedFormatId (getVideoPreview s url (HttpOk videoInfo)) = selectedFormatId s \<and>
     visible (getVideoPreview s url (HttpOk videoInfo)) = [ErrorSection]"
proof -
  let ?s = "(showLoading s)\<lparr>requests := requests s @ [\<lparr>endpoint = ''/preview'', http_method = ''POST'',
                     body = PreviewData (trim url)\<rparr>], currentVideoInfo := Some videoInfo\<rparr>"
  from displayVideoPreview_thrown[OF assms, of ?s] obtain e where
    e: "fst (displayVideoPreview ?s videoInfo) = Some e"
    and sel: "selectedQuality (snd (displayVideoPreview ?s videoInfo)) = selectedQuality ?s"
      "selectedFormatId (snd (displayVideoPreview ?s videoInfo)) = selectedFormatId ?s"
    by blast
  from e obtain t where t: "displayVideoPreview ?s videoInfo = (Some e, t)"
    by (cases "displayVideoPreview ?s videoInfo") auto
  have "getVideoPreview s url (HttpOk videoInfo) =
      (case displayVideoPreview ?s videoInfo of
         (None, s) \<Rightarrow> showPreview s
       | (Some error_message, s) \<Rightarrow> showError s (handleError error_message))"
    by (simp add: getVideoPreview_cases request_result_def Let_def)
  also have "\<dots> = showError (snd (displayVideoPreview ?s videoInfo)) (handleError e)"
    unfolding t by simp
  finally have eq: "getVideoPreview s url (HttpOk videoInfo) =
      showError (snd (displayVideoPreview ?s videoInfo)) (handleError e)" .
  show ?thesis
    unfolding eq
    using sel displayVideoPreview_frame[of ?s videoInfo]
    by (simp add: visible_showError) (simp add: section_defs)
qed

lemma getVideoPreview_requests:
  "requests (getVideoPreview s url outcome) =
     requests s @ [\<lparr>endpoint = ''/preview'', http_method = ''POST'', body = PreviewData (trim url)\<rparr>]"
proof (cases "request_result outcome")
  case (Inl error_message)
  then show ?thesis by (simp add: getVideoPreview_failed section_defs)
next
  case (Inr videoInfo)
  let ?s = "(showLoading s)\<lparr>requests := requests s @ [\<lparr>endpoint = ''/preview'', http_method = ''POST'',
                     body = PreviewData (trim url)\<rparr>], currentVideoInfo := Some videoInfo\<rparr>"
  have "requests (snd (displayVideoPreview ?s videoInfo)) = requests ?s"
    using displayVideoPreview_frame by blast
  with Inr show ?thesis
    by (cases "displayVideoPreview ?s videoInfo"; cases "fst (displayVideoPreview ?s videoInfo)")
      (simp_all add: getVideoPreview_cases Let_def section_defs)
qed

text \<open>The request log of the constructed page holds the health request of \<^verbatim>\<open>init()\<close>.\<close>

lemma initial_checkAPIHealth: "initial = checkAPIHealth (initial\<lparr>requests := []\<rparr>) outcome"
  by (simp add: checkAPIHealth_def api_checkHealth_def makeRequest_def initial_def)

lemma sample_url_valid: "validateYouTubeURL ''https://youtu.be/dQw4w9WgXcQ''"
  by (simp add: url_defs)

lemma sample_url_trim: "trim ''https://youtu.be/dQw4w9WgXcQ'' = ''https://youtu.be/dQw4w9WgXcQ''"
  by (simp add: trim_def is_space_def)

lemma previewed_eq:
  "previewed = getVideoPreview (initial\<lparr>videoUrl := ''https://youtu.be/dQw4w9WgXcQ''\<rparr>)
                 ''https://youtu.be/dQw4w9WgXcQ'' (HttpOk sample_preview)"
  unfolding previewed_def
  by (simp add: handlePreviewClick_valid sample_url_valid sample_url_trim)

lemma previewed_state:
  "currentVideoInfo previewed = Some sample_preview"
  "selectedQuality previewed = Some ''1080p''"
  "selectedFormatId previewed = Some ''f1''"
  "videoUrl previewed = ''https://youtu.be/dQw4w9WgXcQ''"
  "requests previewed =
     [\<lparr>endpoint = ''/health'', http_method = ''GET'', body = NoBody\<rparr>,
      \<lparr>endpoint = ''/preview'', http_method = ''POST'',
        body = PreviewData ''https://youtu.be/dQw4w9WgXcQ''\<rparr>]"
  "map dataset_quality (qualityButtons previewed) = [''1080p'', ''720p'']"
  "map dataset_formatId (qualityButtons previewed) = [''f1'', ''f2'']"
proof -
  have "view_count sample_preview = Given 2300000" "like_count sample_preview = Given 1500"
    "formats sample_preview = Given [\<lparr>quality = ''1080p'', format_id = ''f1'', filesize_formatted = ''50MB''\<rparr>,
                       \<lparr>quality = ''720p'', format_id = ''f2'', filesize_formatted = ''30MB''\<rparr>]"
    by (simp_all add: sample_preview_def)
  note ok = getVideoPreview_ok[OF this, of "initial\<lparr>videoUrl := ''https://youtu.be/dQw4w9WgXcQ''\<rparr>"
      "''https://youtu.be/dQw4w9WgXcQ''"]
  from ok show "currentVideoInfo previewed = Some sample_preview"
    unfolding previewed_eq by simp
  from ok show "selectedQuality previewed = Some ''1080p''"
    unfolding previewed_eq by simp
  from ok show "selectedFormatId previewed = Some ''f1''"
    unfolding previewed_eq by simp
  from ok show "videoUrl previewed = ''https://youtu.be/dQw4w9WgXcQ''"
    unfolding previewed_eq by simp
  from ok show "requests previewed =
     [\<lparr>endpoint = ''/health'', http_method = ''GET'', body = NoBody\<rparr>,
      \<lparr>endpoint = ''/preview'', http_method = ''POST'',
        body = PreviewData ''https://youtu.be/dQw4w9WgXcQ''\<rparr>]"
    unfolding previewed_eq by (simp add: sample_url_trim initial_def)
  from ok show "map dataset_quality (qualityButtons previewed) = [''1080p'', ''720p'']"
    unfolding previewed_eq by simp
  from ok show "map dataset_formatId (qualityButtons previewed) = [''f1'', ''f2'']"
    unfolding previewed_eq by simp
qed

lemma previewed_buttons:
  "length (qualityButtons previewed) = 2"
  "dataset_quality (qualityButtons previewed ! 1) = ''720p''"
  "dataset_formatId (qualityButtons previewed ! 1) = ''f2''"
proof -
  have "length (map dataset_quality (qualityButtons previewed)) = 2"
    by (simp only: previewed_state) simp
  then show len: "length (qualityButtons previewed) = 2" by simp
  have "dataset_quality (qualityButtons previewed ! 1) = map dataset_quality (qualityButtons previewed) ! 1"
    using len by simp
  then show "dataset_quality (qualityButtons previewed ! 1) = ''720p''"
    by (simp only: previewed_state) simp
  have "dataset_formatId (qualityButtons previewed ! 1) = map dataset_formatId (qualityButtons previewed) ! 1"
    using len by simp
  then show "dataset_formatId (qualityButtons previewed ! 1) = ''f2''"
    by (simp only: previewed_state) simp
qed

text \<open>
  \<^verbatim>\<open>showPreview\<close> runs after \<^verbatim>\<open>displayVideoPreview\<close> and hides every section first, so
  the download section, which the automatic selection of the first quality had shown, is
  hidden again until a quality button is clicked.
\<close>

lemma previewed_visible: "visible previewed = [PreviewSection]"
proof -
  have "view_count sample_preview = Given 2300000" "like_count sample_preview = Given 1500"
    "formats sample_preview = Given [\<lparr>quality = ''1080p'', format_id = ''f1'', filesize_formatted = ''50MB''\<rparr>,
                       \<lparr>quality = ''720p'', format_id = ''f2'', filesize_formatted = ''30MB''\<rparr>]"
    by (simp_all add: sample_preview_def)
  from getVideoPreview_ok[OF this] show ?thesis
    unfolding previewed_eq by simp
qed

lemma previewed_first_click:
  "visible (handle previewed (QualityClick 0)) = [PreviewSection, DownloadSection]"
proof -
  have "0 < length (qualityButtons previewed)" by (simp add: previewed_buttons)
  then show ?thesis
    using previewed_visible
    by (simp add: handleQualitySelection_eq visible_def split: if_splits)
qed

lemma handleDownloadClick_previewed: "handleDownloadClick previewed outcome = downloadVideo previewed outcome"
  by (simp add: handleDownloadClick_def previewed_state)

text \<open>
  A preview whose backend call throws (a timeout, a rejected fetch, a response that is
  not 2xx), and a preview that is refused before the call, leave \<^verbatim>\<open>currentVideoInfo\<close>,
  \<^verbatim>\<open>selectedQuality\<close>, \<^verbatim>\<open>selectedFormatId\<close> and the rendered quality buttons as they
  were, and show the error section.
\<close>

lemma thrown_preview_keeps_state:
  "(\<forall>s url outcome error_message. request_result outcome = Inl error_message \<longrightarrow>
      currentVideoInfo (getVideoPreview s url outcome) = currentVideoInfo s \<and>
      selectedQuality (getVideoPreview s url outcome) = selectedQuality s \<and>
      selectedFormatId (getVideoPreview s url outcome) = selectedFormatId s \<and>
      qualityButtons (getVideoPreview s url outcome) = qualityButtons s \<and>
      visible (getVideoPreview s url outcome) = [ErrorSection]) \<and>
   (\<forall>s outcome error_message.
      request_result outcome = Inl error_message \<or> \<not> validateYouTubeURL (videoUrl s) \<longrightarrow>
      currentVideoInfo (handlePreviewClick s outcome) = currentVideoInfo s \<and>
      selectedQuality (handlePreviewClick s outcome) = selectedQuality s \<and>
      selectedFormatId (handlePreviewClick s outcome) = selectedFormatId s \<and>
      qualityButtons (handlePreviewClick s outcome) = qualityButtons s \<and>
      visible (handlePreviewClick s outcome) = [ErrorSection])"
proof -
  have call: "currentVideoInfo (getVideoPreview s url outcome) = currentVideoInfo s \<and>
      selectedQuality (getVideoPreview s url outcome) = selectedQuality s \<and>
      selectedFormatId (getVideoPreview s url outcome) = selectedFormatId s \<and>
      qualityButtons (getVideoPreview s url outcome) = qualityButtons s \<and>
      visible (getVideoPreview s url outcome) = [ErrorSection]"
    if "request_result outcome = Inl error_message" for s url outcome error_message
    using that by (simp add: getVideoPreview_failed visible_showError) (simp add: section_defs)
  have click: "currentVideoInfo (handlePreviewClick s outcome) = currentVideoInfo s \<and>
      selectedQuality (handlePreviewClick s outcome) = selectedQuality s \<and>
      selectedFormatId (handlePreviewClick s outcome) = selectedFormatId s \<and>
      qualityButtons (handlePreviewClick s outcome) = qualityButtons s \<and>
      visible (handlePreviewClick s outcome) = [ErrorSection]"
    if "request_result outcome = Inl error_message \<or> \<not> validateYouTubeURL (videoUrl s)"
    for s outcome error_message
  proof (cases "validateYouTubeURL (videoUrl s)")
    case True
    with that have "request_result outcome = Inl error_message" by simp
    with True show ?thesis by (simp only: handlePreviewClick_valid call)
  next
    case False
    then show ?thesis
      by (simp add: handlePreviewClick_invalid visible_showError) (simp add: section_defs)
  qed
  from call click show ?thesis by blast
qed

section \<open>The claims about the page\<close>

text \<open>
  C6: when one of the rendered quality buttons is selected, exactly that button is
  marked selected afterwards, \<^verbatim>\<open>selectedQuality\<close> and \<^verbatim>\<open>selectedFormatId\<close> are
  those of the button, the download section is shown, and selecting the same button
  again leaves the whole state as it is.
\<close>

theorem selection_marks_one:
  "\<forall>s i. i < length (qualityButtons s) \<longrightarrow>
     (let s' = handleQualitySelection s i in
        length (qualityButtons s') = length (qualityButtons s) \<and>
        filter selected (qualityButtons s') = [qualityButtons s' ! i] \<and>
        selectedQuality s' = Some (dataset_quality (qualityButtons s ! i)) \<and>
        selectedFormatId s' = Some (dataset_formatId (qualityButtons s ! i)) \<and>
        \<not> downloadSection_hidden s' \<and>
        handleQualitySelection s' i = s')"
proof (intro allI impI)
  fix s :: app_state and i assume i: "i < length (qualityButtons s)"
  let ?x = "(qualityButtons s ! i)\<lparr>selected := True\<rparr>"
  have "filter selected ((map (\<lambda>btn. btn\<lparr>selected := False\<rparr>) (qualityButtons s))[i := ?x]) = [?x]"
    using i by (intro filter_selected_update) simp_all
  with i show "let s' = handleQualitySelection s i in
        length (qualityButtons s') = length (qualityButtons s) \<and>
        filter selected (qualityButtons s') = [qualityButtons s' ! i] \<and>
        selectedQuality s' = Some (dataset_quality (qualityButtons s ! i)) \<and>
        selectedFormatId s' = Some (dataset_formatId (qualityButtons s ! i)) \<and>
        \<not> downloadSection_hidden s' \<and>
        handleQualitySelection s' i = s'"
    unfolding Let_def handleQualitySelection_idem[OF i]
    by (simp add: handleQualitySelection_eq)
qed

theorem selection_marks_one_witness:
  "filter selected (qualityButtons (handle previewed (QualityClick 1)))
     = [qualityButtons (handle previewed (QualityClick 1)) ! 1] \<and>
   selectedQuality (handle previewed (QualityClick 1)) = Some ''720p'' \<and>
   selectedFormatId (handle previewed (QualityClick 1)) = Some ''f2'' \<and>
   handle (handle previewed (QualityClick 1)) (QualityClick 1) = handle previewed (QualityClick 1)"
proof -
  have "1 < length (qualityButtons previewed)" by (simp add: previewed_buttons)
  from selection_marks_one[rule_format, OF this] previewed_buttons show ?thesis
    by (simp add: Let_def)
qed

text \<open>
  C2: after a download response that reports success, exactly the success section is
  visible; after a failed download, exactly the error section is visible. The loading,
  preview and download sections are hidden in both cases.
\<close>

theorem download_sections:
  "visible (downloadVideo s outcome) = (if download_failed outcome then [ErrorSection] else [SuccessSection])"
  by (cases outcome)
    (simp_all add: downloadVideo_cases download_failed_def request_result_def Let_def
      visible_downloadBtn visible_showError visible_showSuccess)

theorem download_sections_witness:
  "visible (handle previewed (DownloadClick
      (HttpOk \<lparr>success = True, filename = Some ''video.mp4'', message = None\<rparr>))) = [SuccessSection] \<and>
   visible (handle previewed (DownloadClick
      (HttpOk \<lparr>success = False, filename = None, message = None\<rparr>))) = [ErrorSection] \<and>
   visible (handle previewed (DownloadClick (HttpError 500 ''Internal Server Error'' None))) = [ErrorSection] \<and>
   visible (handle previewed (DownloadClick Aborted)) = [ErrorSection]"
  using download_sections[of previewed]
  by (simp add: handleDownloadClick_previewed download_failed_def)

text \<open>
  C4: when the trimmed content of the URL field is empty or is refused by
  \<^verbatim>\<open>validateYouTubeURL\<close>, pressing preview issues no request and shows the error
  section alone, with the message of the failed check. Otherwise exactly one request,
  the preview request, is issued.
\<close>

theorem invalid_url_rejected:
  "(\<forall>s outcome. trim (videoUrl s) = [] \<or> \<not> validateYouTubeURL (trim (videoUrl s)) \<longrightarrow>
      requests (handlePreviewClick s outcome) = requests s \<and>
      visible (handlePreviewClick s outcome) = [ErrorSection] \<and>
      errorMessage (handlePreviewClick s outcome) =
        (if trim (videoUrl s) = [] then ''Please enter a YouTube video URL''
         else ''Please enter a valid YouTube video URL'')) \<and>
   (\<forall>s outcome. trim (videoUrl s) \<noteq> [] \<and> validateYouTubeURL (trim (videoUrl s)) \<longrightarrow>
      requests (handlePreviewClick s outcome) =
        requests s @ [\<lparr>endpoint = ''/preview'', http_method = ''POST'',
                        body = PreviewData (trim (videoUrl s))\<rparr>])"
proof (intro conjI allI impI)
  fix s :: app_state and outcome :: "video_info fetch_outcome"
  assume "trim (videoUrl s) = [] \<or> \<not> validateYouTubeURL (trim (videoUrl s))"
  then have eq: "handlePreviewClick s outcome =
     showError s (if trim (videoUrl s) = [] then ''Please enter a YouTube video URL''
                  else ''Please enter a valid YouTube video URL'')"
    by (auto simp: handlePreviewClick_def Let_def)
  show "requests (handlePreviewClick s outcome) = requests s"
    unfolding eq by (rule requests_showError)
  show "visible (handlePreviewClick s outcome) = [ErrorSection]"
    unfolding eq by (rule visible_showError)
  show "errorMessage (handlePreviewClick s outcome) =
        (if trim (videoUrl s) = [] then ''Please enter a YouTube video URL''
         else ''Please enter a valid YouTube video URL'')"
    unfolding eq by (rule errorMessage_showError)
next
  fix s :: app_state and outcome :: "video_info fetch_outcome"
  assume "trim (videoUrl s) \<noteq> [] \<and> validateYouTubeURL (trim (videoUrl s))"
  then have "handlePreviewClick s outcome = getVideoPreview s (trim (videoUrl s)) outcome"
    by (simp add: handlePreviewClick_def Let_def)
  then show "requests (handlePreviewClick s outcome) =
        requests s @ [\<lparr>endpoint = ''/preview'', http_method = ''POST'',
                        body = PreviewData (trim (videoUrl s))\<rparr>]"
    by (simp add: getVideoPreview_requests trim_trim)
qed

theorem invalid_url_rejected_witness:
  "requests (handle (handle previewed (EditUrl ''https://vimeo.com/123'')) (PreviewClick Aborted))
     = requests previewed \<and>
   visible (handle (handle previewed (EditUrl ''https://vimeo.com/123'')) (PreviewClick Aborted))
     = [ErrorSection] \<and>
   errorMessage (handle (handle previewed (EditUrl ''https://vimeo.com/123'')) (PreviewClick Aborted))
     = ''Please enter a valid YouTube video URL'' \<and>
   requests (handle (handle initial (EditUrl ''   '')) (PreviewClick Aborted))
     = [\<lparr>endpoint = ''/health'', http_method = ''GET'', body = NoBody\<rparr>] \<and>
   errorMessage (handle (handle initial (EditUrl ''   '')) (PreviewClick Aborted))
     = ''Please enter a YouTube video URL'' \<and>
   requests (handle (handle initial (EditUrl ''https://youtu.be/dQw4w9WgXcQ'')) (PreviewClick Aborted))
     = [\<lparr>endpoint = ''/health'', http_method = ''GET'', body = NoBody\<rparr>,
        \<lparr>endpoint = ''/preview'', http_method = ''POST'', body = PreviewData ''https://youtu.be/dQw4w9WgXcQ''\<rparr>]"
proof -
  note rejected = invalid_url_rejected[THEN conjunct1, rule_format]
  note accepted = invalid_url_rejected[THEN conjunct2, rule_format]
  have vimeo: "trim ''https://vimeo.com/123'' = ''https://vimeo.com/123''"
    "\<not> validateYouTubeURL ''https://vimeo.com/123''"
    by (simp_all add: url_defs)
  have blank: "trim ''   '' = []" by (simp add: trim_def is_space_def)
  have 1: "requests (handlePreviewClick (previewed\<lparr>videoUrl := ''https://vimeo.com/123''\<rparr>) Aborted)
             = requests (previewed\<lparr>videoUrl := ''https://vimeo.com/123''\<rparr>) \<and>
           visible (handlePreviewClick (previewed\<lparr>videoUrl := ''https://vimeo.com/123''\<rparr>) Aborted)
             = [ErrorSection] \<and>
           errorMessage (handlePreviewClick (previewed\<lparr>videoUrl := ''https://vimeo.com/123''\<rparr>) Aborted)
             = ''Please enter a valid YouTube video URL''"
    using rejected[of "previewed\<lparr>videoUrl := ''https://vimeo.com/123''\<rparr>" Aborted]
    by (simp add: vimeo)
  have 2: "requests (handlePreviewClick (initial\<lparr>videoUrl := ''   ''\<rparr>) Aborted)
             = requests (initial\<lparr>videoUrl := ''   ''\<rparr>) \<and>
           errorMessage (handlePreviewClick (initial\<lparr>videoUrl := ''   ''\<rparr>) Aborted)
             = ''Please enter a YouTube video URL''"
    using rejected[of "initial\<lparr>videoUrl := ''   ''\<rparr>" Aborted]
    by (simp add: blank)
  have 3: "requests (handlePreviewClick (initial\<lparr>videoUrl := ''https://youtu.be/dQw4w9WgXcQ''\<rparr>) Aborted)
     = requests (initial\<lparr>videoUrl := ''https://youtu.be/dQw4w9WgXcQ''\<rparr>) @
       [\<lparr>endpoint = ''/preview'', http_method = ''POST'', body = PreviewData ''https://youtu.be/dQw4w9WgXcQ''\<rparr>]"
    using accepted[of "initial\<lparr>videoUrl := ''https://youtu.be/dQw4w9WgXcQ''\<rparr>" Aborted]
    by (simp add: sample_url_trim sample_url_valid)
  from 1 2 3 show ?thesis by (simp add: initial_def)
qed

text \<open>
  C7: when download is pressed while there is no stored preview or no selected quality,
  the message \<^verbatim>\<open>Please select a video quality first\<close> is shown in the error section
  and no request is issued.
\<close>

theorem download_needs_selection:
  "\<forall>s outcome. currentVideoInfo s = None \<or> selectedQuality s = None \<or> selectedQuality s = Some [] \<longrightarrow>
     errorMessage (handleDownloadClick s outcome) = ''Please select a video quality first'' \<and>
     requests (handleDownloadClick s outcome) = requests s \<and>
     visible (handleDownloadClick s outcome) = [ErrorSection]"
  by (simp add: handleDownloadClick_def errorMessage_showError requests_showError visible_showError)

theorem download_needs_selection_witness:
  "errorMessage (handle initial (DownloadClick Aborted)) = ''Please select a video quality first'' \<and>
   requests (handle initial (DownloadClick Aborted))
     = [\<lparr>endpoint = ''/health'', http_method = ''GET'', body = NoBody\<rparr>] \<and>
   visible (handle initial (DownloadClick Aborted)) = [ErrorSection]"
  using download_needs_selection[rule_format, of initial Aborted]
  by (simp add: initial_def)

text \<open>
  C5: the stored preview does not survive every failed preview attempt. After the
  preview of \<^verbatim>\<open>https://youtu.be/dQw4w9WgXcQ\<close>, a second preview whose 2xx response has
  \<^verbatim>\<open>like_count: null\<close> fails inside \<^verbatim>\<open>displayVideoPreview\<close>, after
  \<^verbatim>\<open>currentVideoInfo\<close> has been assigned: the error section alone is shown,
  \<^verbatim>\<open>currentVideoInfo\<close> is the new body, and \<^verbatim>\<open>selectedQuality\<close>,
  \<^verbatim>\<open>selectedFormatId\<close> and the rendered quality buttons are still those of the first
  preview.
\<close>

theorem failed_display_replaces_preview:
  "currentVideoInfo previewed = Some sample_preview \<and>
   selectedQuality previewed = Some ''1080p'' \<and>
   selectedFormatId previewed = Some ''f1'' \<and>
   visible (handle previewed (PreviewClick (HttpOk unrated_preview))) = [ErrorSection] \<and>
   currentVideoInfo (handle previewed (PreviewClick (HttpOk unrated_preview))) = Some unrated_preview \<and>
   unrated_preview \<noteq> sample_preview \<and>
   selectedQuality (handle previewed (PreviewClick (HttpOk unrated_preview))) = Some ''1080p'' \<and>
   selectedFormatId (handle previewed (PreviewClick (HttpOk unrated_preview))) = Some ''f1'' \<and>
   map dataset_formatId (qualityButtons (handle previewed (PreviewClick (HttpOk unrated_preview))))
     = [''f1'', ''f2'']"
proof -
  have v: "validateYouTubeURL (videoUrl previewed)"
    by (simp add: previewed_state sample_url_valid)
  have eq: "handle previewed (PreviewClick (HttpOk unrated_preview)) =
      getVideoPreview previewed ''https://youtu.be/dQw4w9WgXcQ'' (HttpOk unrated_preview)"
    by (simp add: handlePreviewClick_valid[OF v] previewed_state sample_url_trim)
  have "\<not> complete unrated_preview"
    by (simp add: complete_def unrated_preview_def)
  note undisplayed = getVideoPreview_undisplayed[OF this, of previewed "''https://youtu.be/dQw4w9WgXcQ''"]
  have buttons: "qualityButtons (getVideoPreview previewed ''https://youtu.be/dQw4w9WgXcQ'' (HttpOk unrated_preview))
      = qualityButtons previewed"
    by (simp add: getVideoPreview_cases request_result_def Let_def displayVideoPreview_def
        formatNumber_field_def unrated_preview_def section_defs)
  have "unrated_preview \<noteq> sample_preview"
    by (simp add: unrated_preview_def sample_preview_def)
  with undisplayed buttons show ?thesis
    unfolding eq by (simp add: previewed_state)
qed

text \<open>
  C10: the \<^verbatim>\<open>url\<close> of the download request is the content of the URL field when
  download is pressed, with the white space around it trimmed, and not the URL of the
  stored preview: after a preview of \<open>a\<close>, a quality click and an edit of the field to
  \<open>b\<close>, the download request carries \<open>b\<close> with the quality and the format id of the
  preview of \<open>a\<close>.
\<close>

theorem download_uses_current_url:
  "(\<forall>s outcome. currentVideoInfo s \<noteq> None \<and> selectedQuality s \<noteq> None \<and> selectedQuality s \<noteq> Some [] \<longrightarrow>
      requests (handleDownloadClick s outcome) =
        requests s @ [\<lparr>endpoint = ''/download'', http_method = ''POST'',
                        body = DownloadData (trim (videoUrl s)) (selectedQuality s) (selectedFormatId s)\<rparr>]) \<and>
   (\<forall>s a b videoInfo views likes fs i outcome.
      validateYouTubeURL a \<and>
      view_count videoInfo = Given views \<and> like_count videoInfo = Given likes \<and>
      formats videoInfo = Given fs \<and> i < length fs \<and> quality (fs ! i) \<noteq> [] \<longrightarrow>
      requests (foldl handle s
          [EditUrl a, PreviewClick (HttpOk videoInfo), QualityClick i, EditUrl b, DownloadClick outcome]) =
        requests s @
          [\<lparr>endpoint = ''/preview'', http_method = ''POST'', body = PreviewData (trim a)\<rparr>,
           \<lparr>endpoint = ''/download'', http_method = ''POST'',
             body = DownloadData (trim b) (Some (quality (fs ! i))) (Some (format_id (fs ! i)))\<rparr>])"
proof (intro conjI allI impI)
  fix s :: app_state and outcome :: "download_response fetch_outcome"
  assume "currentVideoInfo s \<noteq> None \<and> selectedQuality s \<noteq> None \<and> selectedQuality s \<noteq> Some []"
  then have "handleDownloadClick s outcome = downloadVideo s outcome"
    by (auto simp: handleDownloadClick_def)
  then show "requests (handleDownloadClick s outcome) =
        requests s @ [\<lparr>endpoint = ''/download'', http_method = ''POST'',
                        body = DownloadData (trim (videoUrl s)) (selectedQuality s) (selectedFormatId s)\<rparr>]"
    by (simp add: downloadVideo_cases Let_def section_defs split: sum.splits)
next
  fix s :: app_state and a b and videoInfo :: video_info and views likes and fs :: "format list" and i
    and outcome :: "download_response fetch_outcome"
  assume h: "validateYouTubeURL a \<and>
      view_count videoInfo = Given views \<and> like_count videoInfo = Given likes \<and>
      formats videoInfo = Given fs \<and> i < length fs \<and> quality (fs ! i) \<noteq> []"
  then have given: "view_count videoInfo = Given views" "like_count videoInfo = Given likes"
    "formats videoInfo = Given fs"
    by simp_all
  define s1 where "s1 = handlePreviewClick (s\<lparr>videoUrl := a\<rparr>) (HttpOk videoInfo)"
  from h have s1_eq: "s1 = getVideoPreview (s\<lparr>videoUrl := a\<rparr>) (trim a) (HttpOk videoInfo)"
    unfolding s1_def by (simp add: handlePreviewClick_valid)
  note ok = getVideoPreview_ok[OF given, of "s\<lparr>videoUrl := a\<rparr>" "trim a"]
  from ok have s1: "currentVideoInfo s1 = Some videoInfo"
    "requests s1 = requests s @ [\<lparr>endpoint = ''/preview'', http_method = ''POST'', body = PreviewData (trim a)\<rparr>]"
    unfolding s1_eq by (simp_all add: trim_trim)
  from ok have buttons: "map dataset_quality (qualityButtons s1) = map quality fs"
    "map dataset_formatId (qualityButtons s1) = map format_id fs"
    unfolding s1_eq by blast+
  from buttons(1) have "length (qualityButtons s1) = length fs"
    by (rule map_eq_imp_length_eq)
  with h have i: "i < length (qualityButtons s1)" by simp
  from h have "i < length fs" by simp
  then have q: "dataset_quality (qualityButtons s1 ! i) = quality (fs ! i)"
    "dataset_formatId (qualityButtons s1 ! i) = format_id (fs ! i)"
    by (rule nth_of_map_eq[OF buttons(1)], rule nth_of_map_eq[OF buttons(2)])
  define s2 where "s2 = (handleQualitySelection s1 i)\<lparr>videoUrl := b\<rparr>"
  have s2: "currentVideoInfo s2 = Some videoInfo" "requests s2 = requests s1" "videoUrl s2 = b"
    "selectedQuality s2 = Some (quality (fs ! i))"
    "selectedFormatId s2 = Some (format_id (fs ! i))"
    unfolding s2_def by (simp_all add: handleQualitySelection_eq[OF i] s1 q)
  from s2 h have "handleDownloadClick s2 outcome = downloadVideo s2 outcome"
    by (simp add: handleDownloadClick_def)
  then have "requests (handleDownloadClick s2 outcome) =
      requests s2 @ [\<lparr>endpoint = ''/download'', http_method = ''POST'',
                        body = DownloadData (trim (videoUrl s2)) (selectedQuality s2) (selectedFormatId s2)\<rparr>]"
    by (simp add: downloadVideo_cases Let_def section_defs split: sum.splits)
  then show "requests (foldl handle s
          [EditUrl a, PreviewClick (HttpOk videoInfo), QualityClick i, EditUrl b, DownloadClick outcome]) =
        requests s @
          [\<lparr>endpoint = ''/preview'', http_method = ''POST'', body = PreviewData (trim a)\<rparr>,
           \<lparr>endpoint = ''/download'', http_method = ''POST'',
             body = DownloadData (trim b) (Some (quality (fs ! i))) (Some (format_id (fs ! i)))\<rparr>]"
    by (simp add: s2 s1 s2_def[symmetric] s1_def[symmetric])
qed

theorem download_uses_current_url_witness:
  "requests (foldl handle initial
      [EditUrl ''https://youtu.be/dQw4w9WgXcQ'', PreviewClick (HttpOk sample_preview), QualityClick 1,
       EditUrl ''https://youtu.be/other-video'', DownloadClick Aborted]) =
     [\<lparr>endpoint = ''/health'', http_method = ''GET'', body = NoBody\<rparr>,
      \<lparr>endpoint = ''/preview'', http_method = ''POST'', body = PreviewData ''https://youtu.be/dQw4w9WgXcQ''\<rparr>,
      \<lparr>endpoint = ''/download'', http_method = ''POST'',
        body = DownloadData ''https://youtu.be/other-video'' (Some ''720p'') (Some ''f2'')\<rparr>] \<and>
   requests (handleDownloadClick previewed Aborted) =
     requests previewed @
       [\<lparr>endpoint = ''/download'', http_method = ''POST'',
          body = DownloadData ''https://youtu.be/dQw4w9WgXcQ'' (Some ''1080p'') (Some ''f1'')\<rparr>]"
proof -
  have t: "trim ''https://youtu.be/other-video'' = ''https://youtu.be/other-video''"
    by (simp add: trim_def is_space_def)
  have 1: "requests (foldl handle initial
      [EditUrl ''https://youtu.be/dQw4w9WgXcQ'', PreviewClick (HttpOk sample_preview), QualityClick 1,
       EditUrl ''https://youtu.be/other-video'', DownloadClick Aborted]) =
     requests initial @
     [\<lparr>endpoint = ''/preview'', http_method = ''POST'', body = PreviewData ''https://youtu.be/dQw4w9WgXcQ''\<rparr>,
      \<lparr>endpoint = ''/download'', http_method = ''POST'',
        body = DownloadData ''https://youtu.be/other-video'' (Some ''720p'') (Some ''f2'')\<rparr>]"
    using download_uses_current_url[THEN conjunct2, rule_format,
        where a = "''https://youtu.be/dQw4w9WgXcQ''" and i = 1 and videoInfo = sample_preview
          and views = 2300000 and likes = 1500
          and fs = "[\<lparr>quality = ''1080p'', format_id = ''f1'', filesize_formatted = ''50MB''\<rparr>,
                     \<lparr>quality = ''720p'', format_id = ''f2'', filesize_formatted = ''30MB''\<rparr>]"
          and s = initial and b = "''https://youtu.be/other-video''" and outcome = Aborted]
    by (simp add: sample_url_valid sample_url_trim t sample_preview_def)
  have 2: "requests (handleDownloadClick previewed Aborted) =
     requests previewed @
       [\<lparr>endpoint = ''/download'', http_method = ''POST'',
          body = DownloadData ''https://youtu.be/dQw4w9WgXcQ'' (Some ''1080p'') (Some ''f1'')\<rparr>]"
    using download_uses_current_url[THEN conjunct1, rule_format, of previewed Aborted]
    by (simp add: previewed_state sample_url_trim)
  from 1 2 show ?thesis by (simp add: initial_def)
qed

text \<open>
  C1, as the claim states it: after a 2xx download response with \<^verbatim>\<open>success: false\<close>
  the message shown would be the output of \<^verbatim>\<open>handleError\<close>. The message shown is the
  message of the server as it came, which \<^verbatim>\<open>handleError\<close> would have replaced.
\<close>

theorem raw_server_message_shown:
  "errorMessage (handle previewed (DownloadClick
      (HttpOk \<lparr>success = False, filename = None, message = Some ''Copyright claim by the owner''\<rparr>)))
     = ''Copyright claim by the owner'' \<and>
   handleError ''Copyright claim by the owner''
     = ''This video is protected by copyright and cannot be downloaded.''"
  by (simp add: handleDownloadClick_previewed downloadVideo_refused handleError_def)

text \<open>
  C1, amended: every error that a backend call throws during a preview or a download (a
  timeout, a rejected fetch, a response that is not 2xx) is shown as the output of
  \<^verbatim>\<open>handleError\<close>. A 2xx download response with \<^verbatim>\<open>success: false\<close> shows the message
  of the response as it is, or \<^verbatim>\<open>Download failed\<close> when it has none; and the checks made
  before any request show their own fixed sentences.
\<close>

theorem thrown_errors_humanized:
  "(\<forall>s url outcome error_message. request_result outcome = Inl error_message \<longrightarrow>
      errorMessage (getVideoPreview s url outcome) = handleError error_message) \<and>
   (\<forall>s outcome error_message.
      validateYouTubeURL (videoUrl s) \<and> request_result outcome = Inl error_message \<longrightarrow>
      errorMessage (handlePreviewClick s outcome) = handleError error_message) \<and>
   (\<forall>s outcome error_message. request_result outcome = Inl error_message \<longrightarrow>
      errorMessage (downloadVideo s outcome) = handleError error_message) \<and>
   (\<forall>s response. \<not> success response \<longrightarrow>
      errorMessage (downloadVideo s (HttpOk response)) =
        (case message response of
           Some m \<Rightarrow> if m \<noteq> [] then m else ''Download failed''
         | None \<Rightarrow> ''Download failed'')) \<and>
   (\<forall>s outcome. trim (videoUrl s) = [] \<longrightarrow>
      errorMessage (handlePreviewClick s outcome) = ''Please enter a YouTube video URL'') \<and>
   (\<forall>s outcome. trim (videoUrl s) \<noteq> [] \<and> \<not> validateYouTubeURL (trim (videoUrl s)) \<longrightarrow>
      errorMessage (handlePreviewClick s outcome) = ''Please enter a valid YouTube video URL'') \<and>
   (\<forall>s outcome. currentVideoInfo s = None \<or> selectedQuality s = None \<or> selectedQuality s = Some [] \<longrightarrow>
      errorMessage (handleDownloadClick s outcome) = ''Please select a video quality first'')"
proof (intro conjI allI impI)
  fix s :: app_state and url and outcome :: "video_info fetch_outcome" and error_message
  assume "request_result outcome = Inl error_message"
  then show "errorMessage (getVideoPreview s url outcome) = handleError error_message"
    by (simp add: getVideoPreview_failed errorMessage_showError)
next
  fix s :: app_state and outcome :: "video_info fetch_outcome" and error_message
  assume "validateYouTubeURL (videoUrl s) \<and> request_result outcome = Inl error_message"
  then show "errorMessage (handlePreviewClick s outcome) = handleError error_message"
    by (simp add: handlePreviewClick_valid getVideoPreview_failed errorMessage_showError)
next
  fix s :: app_state and outcome :: "download_response fetch_outcome" and error_message
  assume "request_result outcome = Inl error_message"
  then show "errorMessage (downloadVideo s outcome) = handleError error_message"
    by (rule downloadVideo_failed)
next
  fix s :: app_state and response :: download_response
  assume "\<not> success response"
  then show "errorMessage (downloadVideo s (HttpOk response)) =
        (case message response of
           Some m \<Rightarrow> if m \<noteq> [] then m else ''Download failed''
         | None \<Rightarrow> ''Download failed'')"
    by (rule downloadVideo_refused)
next
  fix s :: app_state and outcome :: "video_info fetch_outcome"
  assume "trim (videoUrl s) = []"
  then show "errorMessage (handlePreviewClick s outcome) = ''Please enter a YouTube video URL''"
    by (simp add: handlePreviewClick_def errorMessage_showError)
next
  fix s :: app_state and outcome :: "video_info fetch_outcome"
  assume "trim (videoUrl s) \<noteq> [] \<and> \<not> validateYouTubeURL (trim (videoUrl s))"
  then show "errorMessage (handlePreviewClick s outcome) = ''Please enter a valid YouTube video URL''"
    by (simp add: handlePreviewClick_def errorMessage_showError)
next
  fix s :: app_state and outcome :: "download_response fetch_outcome"
  assume "currentVideoInfo s = None \<or> selectedQuality s = None \<or> selectedQuality s = Some []"
  then show "errorMessage (handleDownloadClick s outcome) = ''Please select a video quality first''"
    by (auto simp: handleDownloadClick_def errorMessage_showError)
qed

theorem thrown_errors_humanized_witness:
  "errorMessage (handle previewed (DownloadClick Aborted))
     = ''Request timed out. Please check your connection and try again.'' \<and>
   errorMessage (handle previewed (DownloadClick (HttpError 429 ''Too Many Requests'' None)))
     = ''Too many requests. Please wait a moment before trying again.'' \<and>
   errorMessage (handle previewed (DownloadClick (HttpError 404 ''Not Found'' (Some ''Video unavailable''))))
     = ''This video is not available for download. It may be private, deleted, or restricted.'' \<and>
   errorMessage (handle previewed (PreviewClick (Rejected ''Failed to fetch'')))
     = ''Unable to connect to the server. Please check your internet connection.'' \<and>
   errorMessage (handle previewed (DownloadClick
      (HttpOk \<lparr>success = False, filename = None, message = None\<rparr>))) = ''Download failed''"
proof -
  note download = thrown_errors_humanized[THEN conjunct2, THEN conjunct2, THEN conjunct1, rule_format]
  note preview = thrown_errors_humanized[THEN conjunct2, THEN conjunct1, rule_format]
  note refused = thrown_errors_humanized[THEN conjunct2, THEN conjunct2, THEN conjunct2, THEN conjunct1,
      rule_format]
  have 1: "errorMessage (downloadVideo previewed Aborted) = handleError ''Request timeout - please try again''"
    by (rule download) (simp add: request_result_def)
  have 2: "errorMessage (downloadVideo previewed (HttpError 429 ''Too Many Requests'' None))
      = handleError ''HTTP 429: Too Many Requests''"
    by (rule download) (simp add: request_result_def show_nat.simps digit_char_def)
  have 3: "errorMessage (downloadVideo previewed (HttpError 404 ''Not Found'' (Some ''Video unavailable'')))
      = handleError ''Video unavailable''"
    by (rule download) (simp add: request_result_def)
  have 4: "errorMessage (handlePreviewClick previewed (Rejected ''Failed to fetch''))
      = handleError ''Failed to fetch''"
    by (rule preview) (simp add: request_result_def previewed_state sample_url_valid)
  have 5: "errorMessage (downloadVideo previewed (HttpOk \<lparr>success = False, filename = None, message = None\<rparr>))
      = ''Download failed''"
    using refused[of "\<lparr>success = False, filename = None, message = None\<rparr>" previewed] by simp
  from 1 2 3 4 5 show ?thesis
    by (simp add: handleDownloadClick_previewed handleError_def)
qed

end
